theory Spec2Isabelle
  imports Main
begin

section \<open>JavaScript values\<close>

text \<open>
  The hook in \<^verbatim>\<open>src/useTransitionState.ts\<close> receives its \<^verbatim>\<open>effect\<close> option at run time as
  an arbitrary JavaScript value: the TypeScript type \<^verbatim>\<open>TransitionEffect\<close> is erased, and the
  resolver itself tests \<^verbatim>\<open>typeof effect === "string"\<close> and casts. Values are therefore modelled
  as a small universe of JavaScript values. An object literal is the list of its own
  properties in source order; \<open>JBuiltin k\<close> is the value found under the key \<open>k\<close> on
  \<^verbatim>\<open>Object.prototype\<close>, which every object literal inherits from. Numbers are restricted to
  integers.
\<close>

datatype js_value =
    JUndefined
  | JNull
  | JBool bool
  | JNum int
  | JStr string
  | JObj "(string \<times> js_value) list"
  | JBuiltin string

datatype js_error = TypeError

text \<open>The \<^verbatim>\<open>typeof\<close> operator.\<close>

fun typeof_js :: "js_value \<Rightarrow> string" where
  "typeof_js JUndefined = ''undefined''"
| "typeof_js JNull = ''object''"
| "typeof_js (JBool b) = ''boolean''"
| "typeof_js (JNum n) = ''number''"
| "typeof_js (JStr s) = ''string''"
| "typeof_js (JObj fs) = ''object''"
| "typeof_js (JBuiltin k) = (if k = ''__proto__'' then ''object'' else ''function'')"

text \<open>Truthiness, as used by \<^verbatim>\<open>||\<close> and \<^verbatim>\<open>if\<close>.\<close>

fun truthy :: "js_value \<Rightarrow> bool" where
  "truthy JUndefined = False"
| "truthy JNull = False"
| "truthy (JBool b) = b"
| "truthy (JNum n) = (n \<noteq> 0)"
| "truthy (JStr s) = (s \<noteq> [])"
| "truthy (JObj fs) = True"
| "truthy (JBuiltin k) = True"

text \<open>
  The property names every ordinary object inherits from \<^verbatim>\<open>Object.prototype\<close>. All of them
  hold functions, except the accessor \<^verbatim>\<open>__proto__\<close>, which yields the prototype object.
\<close>

definition object_prototype_keys :: "string list" where
  "object_prototype_keys =
     [''constructor'', ''hasOwnProperty'', ''isPrototypeOf'', ''propertyIsEnumerable'',
      ''toLocaleString'', ''toString'', ''valueOf'', ''__proto__'',
      ''__defineGetter__'', ''__defineSetter__'', ''__lookupGetter__'', ''__lookupSetter__'']"

definition inherited :: "string \<Rightarrow> js_value" where
  "inherited k = (if k \<in> set object_prototype_keys then JBuiltin k else JUndefined)"

text \<open>
  \<^verbatim>\<open>obj[k]\<close> on an object with the own properties \<open>fs\<close>: an own property wins, otherwise the
  prototype chain is searched, otherwise the result is \<^verbatim>\<open>undefined\<close>.
\<close>

definition member :: "(string \<times> js_value) list \<Rightarrow> string \<Rightarrow> js_value" where
  "member fs k = (case map_of fs k of Some v \<Rightarrow> v | None \<Rightarrow> inherited k)"

text \<open>
  \<^verbatim>\<open>v.k\<close> on an arbitrary value: reading a property of \<^verbatim>\<open>null\<close> or \<^verbatim>\<open>undefined\<close> throws a
  \<^verbatim>\<open>TypeError\<close>. For primitives and built-in functions only the members inherited from
  \<^verbatim>\<open>Object.prototype\<close> are modelled; the hook reads the keys \<^verbatim>\<open>from\<close> and \<^verbatim>\<open>to\<close> only, which
  no built-in prototype defines.
\<close>

fun get_prop :: "js_value \<Rightarrow> string \<Rightarrow> js_error + js_value" where
  "get_prop JUndefined k = Inl TypeError"
| "get_prop JNull k = Inl TypeError"
| "get_prop (JObj fs) k = Inr (member fs k)"
| "get_prop v k = Inr (inherited k)"

section \<open>The effect resolver\<close>

text \<open>The constant \<^verbatim>\<open>PRESETS\<close> (source lines 37--50).\<close>

definition PRESETS :: "(string \<times> js_value) list" where
  "PRESETS =
     [(''fade'',
         JObj [(''from'', JObj [(''opacity'', JStr ''0'')]),
               (''to'', JObj [(''opacity'', JStr ''1'')])]),
      (''slide'',
         JObj [(''from'', JObj [(''transform'', JStr ''translateY(-20px)''), (''opacity'', JStr ''0'')]),
               (''to'', JObj [(''transform'', JStr ''translateY(0)''), (''opacity'', JStr ''1'')])]),
      (''zoom'',
         JObj [(''from'', JObj [(''transform'', JStr ''scale(0.95)''), (''opacity'', JStr ''0'')]),
               (''to'', JObj [(''transform'', JStr ''scale(1)''), (''opacity'', JStr ''1'')])])]"

text \<open>
  \<^verbatim>\<open>getEffectConfig\<close> (source lines 81--86), as a function of the closure variable
  \<^verbatim>\<open>effect\<close>:
  \<^verbatim>\<open>
  if (typeof effect === "string") {
    return PRESETS[effect as TransitionEffectType] || PRESETS.fade;
  }
  return effect;
  \<close>
\<close>

definition getEffectConfig :: "js_value \<Rightarrow> js_value" where
  "getEffectConfig effect =
     (case effect of
        JStr name \<Rightarrow>
          (let preset = member PRESETS name
           in if truthy preset then preset else member PRESETS ''fade'')
      | _ \<Rightarrow> effect)"

section \<open>Options, observable actions and the hook's state\<close>

text \<open>
  \<^verbatim>\<open>TransitionOptions\<close> (source lines 21--29). An optional field that is omitted is \<open>None\<close>;
  of the four callbacks only their presence matters to the hook, which calls them without
  arguments and ignores their results. The duration is a whole number of milliseconds.
\<close>

record TransitionOptions =
  duration :: "nat option"
  effect :: "js_value option"
  timingFunction :: "string option"
  onEnter :: bool
  onEntered :: bool
  onExit :: bool
  onExited :: bool

text \<open>
  The destructuring defaults of source lines 59--67. A default applies when the field is
  absent or \<^verbatim>\<open>undefined\<close>, and not when it is \<^verbatim>\<open>null\<close>.
\<close>

definition duration_of :: "TransitionOptions \<Rightarrow> nat" where
  "duration_of opts = (case duration opts of None \<Rightarrow> 300 | Some d \<Rightarrow> d)"

definition effect_of :: "TransitionOptions \<Rightarrow> js_value" where
  "effect_of opts =
     (case effect opts of
        None \<Rightarrow> JStr ''fade''
      | Some JUndefined \<Rightarrow> JStr ''fade''
      | Some v \<Rightarrow> v)"

definition timingFunction_of :: "TransitionOptions \<Rightarrow> string" where
  "timingFunction_of opts = (case timingFunction opts of None \<Rightarrow> ''ease-in-out'' | Some tf \<Rightarrow> tf)"

text \<open>Decimal rendering of a number inside a template literal.\<close>

definition digit_char :: "nat \<Rightarrow> char" where
  "digit_char n = ''0123456789'' ! n"

fun show_nat :: "nat \<Rightarrow> string" where
  "show_nat n = (if n < 10 then [digit_char n] else show_nat (n div 10) @ [digit_char (n mod 10)])"

declare show_nat.simps [simp del]

text \<open>The template literal \<^verbatim>\<open>`all ${duration}ms ${timingFunction}`\<close>.\<close>

definition transition_css :: "nat \<Rightarrow> string \<Rightarrow> string" where
  "transition_css d tf = ''all '' @ show_nat d @ ''ms '' @ tf"

text \<open>
  What the hook does to the outside world: it calls a lifecycle callback, it assigns the
  \<^verbatim>\<open>transition\<close> property of the bound node's style, or it copies a style bag onto the bound
  node's style with \<^verbatim>\<open>Object.assign\<close>. Each action is recorded with the time at which it
  happens, oldest first.
\<close>

datatype callback = OnEnter | OnEntered | OnExit | OnExited

datatype action =
    Invoke callback
  | SetTransition string
  | AssignStyle js_value

text \<open>
  The closures the hook hands to \<^verbatim>\<open>setTimeout\<close> and \<^verbatim>\<open>requestAnimationFrame\<close>, each with the
  variables it captured from the render that created it.
  \<^item> \<open>ExitTimeout e\<close>: the callback of source lines 112--117; \<open>e\<close> tells whether \<^verbatim>\<open>onExited\<close>
    was supplied.
  \<^item> \<open>EnteredTimeout e\<close>: the callback of source lines 136--138; \<open>e\<close> tells whether
    \<^verbatim>\<open>onEntered\<close> was supplied.
  \<^item> \<open>OuterFrame\<close> and \<open>InnerFrame\<close>: the two nested frame callbacks of source lines 129--140,
    with the captured \<^verbatim>\<open>config\<close>, \<^verbatim>\<open>duration\<close>, \<^verbatim>\<open>timingFunction\<close> and the presence of
    \<^verbatim>\<open>onEntered\<close>.
\<close>

datatype timer_task = ExitTimeout bool | EnteredTimeout bool

datatype frame_task =
    OuterFrame js_value nat string bool
  | InnerFrame js_value nat string bool

record timer =
  handle :: nat
  set_at :: nat
  delay :: nat
  task :: timer_task

definition due :: "timer \<Rightarrow> nat" where
  "due t = set_at t + delay t"

text \<open>
  The state of one instance of the hook together with the part of its host it talks to.
  \<^item> \<open>isVisible\<close>, \<open>shouldRender\<close>: the two \<^verbatim>\<open>useState\<close> cells (lines 69--70).
  \<^item> \<open>elementRef\<close>: whether \<^verbatim>\<open>elementRef.current\<close> holds a node (line 71).
  \<^item> \<open>isMountedRef\<close>: \<^verbatim>\<open>isMountedRef.current\<close> (line 72).
  \<^item> \<open>mounted\<close>: whether the host still has the owning component mounted.
  \<^item> \<open>effectDeps\<close>, \<open>layoutDeps\<close>: the dependency arrays the two effects last ran with
    (lines 120 and 142); \<open>None\<close> before the first run.
  \<^item> \<open>effectCleanup\<close>: the timer handle that the cleanup returned by the last run of the
    visibility effect will clear (line 119), if that run returned a cleanup.
  \<^item> \<open>timers\<close>, \<open>frames\<close>: the pending \<^verbatim>\<open>setTimeout\<close> and \<^verbatim>\<open>requestAnimationFrame\<close>
    callbacks, in the order they were registered.
  \<^item> \<open>now\<close>: the clock, in milliseconds. \<open>trace\<close>: the actions performed so far.
\<close>

record hook_state =
  isVisible :: bool
  shouldRender :: bool
  elementRef :: bool
  isMountedRef :: bool
  mounted :: bool
  effectDeps :: "(bool \<times> nat \<times> js_value \<times> string) option"
  layoutDeps :: "(bool \<times> bool) option"
  effectCleanup :: "nat option"
  timers :: "timer list"
  frames :: "frame_task list"
  nextHandle :: nat
  now :: nat
  trace :: "(nat \<times> action) list"

section \<open>Host primitives\<close>

definition emit :: "action \<Rightarrow> hook_state \<Rightarrow> hook_state" where
  "emit a s = s\<lparr>trace := trace s @ [(now s, a)]\<rparr>"

text \<open>\<^verbatim>\<open>if (cb) cb()\<close> for an optional callback.\<close>

definition invoke :: "bool \<Rightarrow> callback \<Rightarrow> hook_state \<Rightarrow> hook_state" where
  "invoke present cb s = (if present then emit (Invoke cb) s else s)"

text \<open>\<^verbatim>\<open>setTimeout(task, d)\<close>; the handle it returns is \<open>nextHandle s\<close>.\<close>

definition setTimeout :: "timer_task \<Rightarrow> nat \<Rightarrow> hook_state \<Rightarrow> hook_state" where
  "setTimeout k d s =
     s\<lparr>timers := timers s @ [\<lparr>handle = nextHandle s, set_at = now s, delay = d, task = k\<rparr>],
       nextHandle := Suc (nextHandle s)\<rparr>"

text \<open>\<^verbatim>\<open>clearTimeout(h)\<close>: nothing happens when no pending timer has the handle.\<close>

definition clearTimeout :: "nat \<Rightarrow> hook_state \<Rightarrow> hook_state" where
  "clearTimeout h s = s\<lparr>timers := filter (\<lambda>t. handle t \<noteq> h) (timers s)\<rparr>"

definition requestAnimationFrame :: "frame_task \<Rightarrow> hook_state \<Rightarrow> hook_state" where
  "requestAnimationFrame k s = s\<lparr>frames := frames s @ [k]\<rparr>"

text \<open>A state setter of a component that is no longer mounted does nothing.\<close>

definition setShouldRender :: "bool \<Rightarrow> hook_state \<Rightarrow> hook_state" where
  "setShouldRender v s = (if mounted s then s\<lparr>shouldRender := v\<rparr> else s)"

text \<open>Sequencing of steps that may throw.\<close>

fun and_then :: "'e + 'a \<Rightarrow> ('a \<Rightarrow> 'e + 'b) \<Rightarrow> 'e + 'b" where
  "and_then (Inl e) f = Inl e"
| "and_then (Inr x) f = f x"

fun each :: "('a \<Rightarrow> 's \<Rightarrow> 'e + 's) \<Rightarrow> 'a list \<Rightarrow> 's \<Rightarrow> 'e + 's" where
  "each f [] s = Inr s"
| "each f (x # xs) s = and_then (f x s) (each f xs)"

section \<open>The hook\<close>

text \<open>
  \<^verbatim>\<open>applyStyle\<close> (source lines 88--92):
  \<^verbatim>\<open>
  if (elementRef.current) { Object.assign(elementRef.current.style, styles); }
  \<close>
\<close>

definition applyStyle :: "js_value \<Rightarrow> hook_state \<Rightarrow> hook_state" where
  "applyStyle styles s = (if elementRef s then emit (AssignStyle styles) s else s)"

text \<open>
  The body of the visibility effect (source lines 95--119), run on the state of the render
  it belongs to. The enter branch and the early return of line 101 return no cleanup; the
  exit branch returns the cleanup that clears its timer. In the exit branch \<^verbatim>\<open>config.from\<close> is
  read only when a node is bound, after the \<^verbatim>\<open>transition\<close> property was assigned.
\<close>

definition visibilityEffect :: "TransitionOptions \<Rightarrow> hook_state \<Rightarrow> js_error + hook_state" where
  "visibilityEffect opts s =
     (if isVisible s then
        Inr ((setShouldRender True (invoke (onEnter opts) OnEnter s))\<lparr>effectCleanup := None\<rparr>)
      else if \<not> shouldRender s then
        Inr (s\<lparr>effectCleanup := None\<rparr>)
      else
        let s1 = invoke (onExit opts) OnExit s;
            config = getEffectConfig (effect_of opts)
        in and_then
             (if elementRef s1 then
                let s2 = emit (SetTransition (transition_css (duration_of opts) (timingFunction_of opts))) s1
                in and_then (get_prop config ''from'') (\<lambda>styles. Inr (applyStyle styles s2))
              else Inr s1)
             (\<lambda>s3. Inr ((setTimeout (ExitTimeout (onExited opts)) (duration_of opts) s3)
                         \<lparr>effectCleanup := Some (nextHandle s3)\<rparr>)))"

text \<open>
  The body of the layout effect (source lines 123--141). It returns no cleanup: nothing it
  schedules is ever cancelled.
\<close>

definition layoutEffect :: "TransitionOptions \<Rightarrow> hook_state \<Rightarrow> js_error + hook_state" where
  "layoutEffect opts s =
     (if isVisible s \<and> shouldRender s \<and> elementRef s then
        let config = getEffectConfig (effect_of opts);
            s1 = emit (SetTransition ''none'') s
        in and_then (get_prop config ''from'')
             (\<lambda>styles. Inr (requestAnimationFrame
                (OuterFrame config (duration_of opts) (timingFunction_of opts) (onEntered opts))
                (applyStyle styles s1)))
      else Inr s)"

text \<open>
  Effects with dependency arrays: an effect runs after a render only when its dependencies
  differ from those of its previous run, and the cleanup of the previous run is called
  first.
\<close>

definition runCleanup :: "hook_state \<Rightarrow> hook_state" where
  "runCleanup s = (case effectCleanup s of None \<Rightarrow> s | Some h \<Rightarrow> clearTimeout h s)"

definition runVisibilityEffect :: "TransitionOptions \<Rightarrow> hook_state \<Rightarrow> js_error + hook_state" where
  "runVisibilityEffect opts s =
     (let deps = (isVisible s, duration_of opts, effect_of opts, timingFunction_of opts)
      in if effectDeps s = Some deps then Inr s
         else visibilityEffect opts ((runCleanup s)\<lparr>effectDeps := Some deps\<rparr>))"

definition runLayoutEffect :: "TransitionOptions \<Rightarrow> hook_state \<Rightarrow> js_error + hook_state" where
  "runLayoutEffect opts s =
     (let deps = (shouldRender s, isVisible s)
      in if layoutDeps s = Some deps then Inr s
         else layoutEffect opts (s\<lparr>layoutDeps := Some deps\<rparr>))"

text \<open>
  One render of the owning component followed by its commit. The caller renders the
  element exactly when the returned presence flag is true, and \<open>att\<close> tells whether it
  attaches the returned ref to that element; the host sets \<^verbatim>\<open>elementRef.current\<close> accordingly
  before any effect runs. Layout effects run before passive effects.
\<close>

definition attachRef :: "bool \<Rightarrow> hook_state \<Rightarrow> hook_state" where
  "attachRef att s = s\<lparr>elementRef := att \<and> shouldRender s\<rparr>"

definition renderPass :: "bool \<Rightarrow> TransitionOptions \<Rightarrow> hook_state \<Rightarrow> js_error + hook_state" where
  "renderPass att opts s =
     and_then (runLayoutEffect opts (attachRef att s)) (runVisibilityEffect opts)"

text \<open>
  A state change is followed by a render; if an effect of that render changed the state
  again (\<^verbatim>\<open>setShouldRender(true)\<close> on line 97), a second render follows. The second render
  cannot change the state (lemma \<open>renderPass_settles\<close> below).
\<close>

definition commit :: "bool \<Rightarrow> TransitionOptions \<Rightarrow> hook_state \<Rightarrow> js_error + hook_state" where
  "commit att opts s =
     and_then (renderPass att opts s)
       (\<lambda>s1. if shouldRender s1 \<noteq> shouldRender s then renderPass att opts s1 else Inr s1)"

text \<open>The timer callbacks (source lines 112--117 and 136--138).\<close>

fun runTimer :: "bool \<Rightarrow> TransitionOptions \<Rightarrow> timer_task \<Rightarrow> hook_state \<Rightarrow> js_error + hook_state" where
  "runTimer att opts (ExitTimeout e) s =
     (if isMountedRef s then
        let s1 = invoke e OnExited (setShouldRender False s)
        in if mounted s1 then commit att opts s1 else Inr s1
      else Inr s)"
| "runTimer att opts (EnteredTimeout e) s =
     Inr (if isMountedRef s \<and> e then emit (Invoke OnEntered) s else s)"

text \<open>The frame callbacks (source lines 129--140).\<close>

fun runFrame :: "frame_task \<Rightarrow> hook_state \<Rightarrow> js_error + hook_state" where
  "runFrame (OuterFrame config d tf e) s = Inr (requestAnimationFrame (InnerFrame config d tf e) s)"
| "runFrame (InnerFrame config d tf e) s =
     (if \<not> elementRef s then Inr s
      else
        let s1 = emit (SetTransition (transition_css d tf)) s
        in and_then (get_prop config ''to'')
             (\<lambda>styles. Inr (setTimeout (EnteredTimeout e) d (applyStyle styles s1))))"

section \<open>The environment\<close>

text \<open>
  The hook runs inside a host (React, in a browser, so that \<^verbatim>\<open>useIsomorphicLayoutEffect\<close> of
  lines 52--53 is \<^verbatim>\<open>useLayoutEffect\<close>). The host is modelled as far as the hook depends on it:
  \<^item> an event is handled to completion, with the renders and effects it causes, before the
    next event; time does not pass while it is handled;
  \<^item> the options keep their identity from one render to the next, so that the dependency
    arrays of lines 120 and 142 change only with the two state cells;
  \<^item> the four callbacks are opaque: invoking one is recorded, and it neither throws nor
    calls the setter;
  \<^item> a function that throws ends the run with the error.
\<close>

text \<open>
  What can happen to a mounted instance:
  \<^item> \<open>SetIsVisible a\<close>: the caller invokes the returned setter, with a value or an updater
    function;
  \<^item> \<open>Paint\<close>: a paint opportunity; the frame callbacks registered before it run in order,
    and callbacks they register wait for the next one;
  \<^item> \<open>Wait n\<close>: \<open>n\<close> milliseconds pass; the pending timers that fall due run in order of due
    time, timers with equal due time in order of registration, each at its due time;
  \<^item> \<open>Unmount\<close>: the host tears the owning component down: it detaches the ref and then
    calls the cleanups of the passive effects in declaration order (lines 76--78 and 119).
\<close>

datatype set_state_action = Value bool | Updater "bool \<Rightarrow> bool"

fun next_state :: "set_state_action \<Rightarrow> bool \<Rightarrow> bool" where
  "next_state (Value v) prev = v"
| "next_state (Updater f) prev = f prev"

datatype event = SetIsVisible set_state_action | Paint | Wait nat | Unmount

text \<open>
  The timer with handle \<open>h\<close> falls due: if it is still pending (it may have been cleared in
  the meantime), the clock is at its due time, the timer leaves the pending list and its
  callback runs.
\<close>

definition fire :: "bool \<Rightarrow> TransitionOptions \<Rightarrow> nat \<Rightarrow> hook_state \<Rightarrow> js_error + hook_state" where
  "fire att opts h s =
     (case find (\<lambda>t. handle t = h) (timers s) of
        None \<Rightarrow> Inr s
      | Some t \<Rightarrow>
          runTimer att opts (task t) (clearTimeout h (s\<lparr>now := max (now s) (due t)\<rparr>)))"

definition unmount :: "hook_state \<Rightarrow> hook_state" where
  "unmount s = (runCleanup (s\<lparr>elementRef := False, isMountedRef := False\<rparr>))\<lparr>mounted := False\<rparr>"

fun step :: "bool \<Rightarrow> TransitionOptions \<Rightarrow> event \<Rightarrow> hook_state \<Rightarrow> js_error + hook_state" where
  "step att opts (SetIsVisible a) s =
     (if mounted s then commit att opts (s\<lparr>isVisible := next_state a (isVisible s)\<rparr>) else Inr s)"
| "step att opts Paint s = each runFrame (frames s) (s\<lparr>frames := []\<rparr>)"
| "step att opts (Wait n) s =
     and_then
       (each (fire att opts)
          (map handle (sort_key due (filter (\<lambda>t. due t \<le> now s + n) (timers s)))) s)
       (\<lambda>s1. Inr (s1\<lparr>now := now s + n\<rparr>))"
| "step att opts Unmount s = (if mounted s then Inr (unmount s) else Inr s)"

fun run :: "bool \<Rightarrow> TransitionOptions \<Rightarrow> event list \<Rightarrow> hook_state \<Rightarrow> js_error + hook_state" where
  "run att opts [] s = Inr s"
| "run att opts (e # es) s = and_then (step att opts e s) (run att opts es)"

text \<open>
  Mounting (source lines 69--72 and the first commit): both state cells start at
  \<^verbatim>\<open>initialValue\<close>, \<^verbatim>\<open>isMountedRef\<close> starts at \<^verbatim>\<open>true\<close> and the mount effect of lines 74--79 sets
  it to \<^verbatim>\<open>true\<close> again; the layout effect and the visibility effect run for the first time.
\<close>

definition initial :: "bool \<Rightarrow> hook_state" where
  "initial initialValue =
     \<lparr>isVisible = initialValue, shouldRender = initialValue, elementRef = False,
      isMountedRef = True, mounted = True, effectDeps = None, layoutDeps = None,
      effectCleanup = None, timers = [], frames = [], nextHandle = 0, now = 0, trace = []\<rparr>"

definition mount :: "bool \<Rightarrow> TransitionOptions \<Rightarrow> bool \<Rightarrow> js_error + hook_state" where
  "mount att opts initialValue = commit att opts (initial initialValue)"

text \<open>
  The configuration of the specification's scenarios: default duration (300 ms), default
  effect (fade) and timing function, all four callbacks supplied.
\<close>

definition scenario_options :: TransitionOptions where
  "scenario_options =
     \<lparr>duration = None, effect = None, timingFunction = None,
      onEnter = True, onEntered = True, onExit = True, onExited = True\<rparr>"

section \<open>Predicates on states\<close>

text \<open>
  A state is committed when both effects have run for the current values of the state
  cells and the ref reflects what the caller renders: nothing is left for the host to do
  until the next event.
\<close>

definition committed :: "bool \<Rightarrow> TransitionOptions \<Rightarrow> hook_state \<Rightarrow> bool" where
  "committed att opts s =
     (effectDeps s = Some (isVisible s, duration_of opts, effect_of opts, timingFunction_of opts) \<and>
      layoutDeps s = Some (shouldRender s, isVisible s) \<and>
      elementRef s = (att \<and> shouldRender s))"

text \<open>The resolved configuration of a render, and the read of \<^verbatim>\<open>config.from\<close>, which happens
  only when a node is bound.\<close>

definition config_of :: "TransitionOptions \<Rightarrow> js_value" where
  "config_of opts = getEffectConfig (effect_of opts)"

definition read_from :: "bool \<Rightarrow> TransitionOptions \<Rightarrow> js_error + js_value" where
  "read_from att opts = (if att then get_prop (config_of opts) ''from'' else Inr JUndefined)"

text \<open>
  The consistency conditions that hold in every state an instance can reach (lemmas
  \<open>consistent_mount\<close> and \<open>consistent_run\<close> below). A pending exit timer belongs to the exit in
  progress: the instance is mounted, the intent is false, the element is still present, the
  cleanup of the visibility effect holds the timer's handle, and the timer was started with
  the configured duration. Timer handles are unique and older than the next handle, and no
  timer was started in the future. An element that is present against the intent has its
  exit timer pending.
\<close>

definition is_exit :: "timer \<Rightarrow> bool" where
  "is_exit t = (case task t of ExitTimeout e \<Rightarrow> True | EnteredTimeout e \<Rightarrow> False)"

definition exit_timer_ok :: "TransitionOptions \<Rightarrow> hook_state \<Rightarrow> timer \<Rightarrow> bool" where
  "exit_timer_ok opts s t =
     (mounted s \<and> \<not> isVisible s \<and> shouldRender s \<and> effectCleanup s = Some (handle t) \<and>
      delay t = duration_of opts \<and> task t = ExitTimeout (onExited opts))"

definition timers_ok :: "TransitionOptions \<Rightarrow> hook_state \<Rightarrow> bool" where
  "timers_ok opts s =
     (distinct (map handle (timers s)) \<and>
      (\<forall>t\<in>set (timers s). handle t < nextHandle s \<and> set_at t \<le> now s \<and>
          (is_exit t \<longrightarrow> exit_timer_ok opts s t)))"

definition consistent :: "bool \<Rightarrow> TransitionOptions \<Rightarrow> hook_state \<Rightarrow> bool" where
  "consistent att opts s =
     ((if mounted s then committed att opts s \<and> isMountedRef s
       else \<not> isMountedRef s \<and> \<not> elementRef s) \<and>
      (isVisible s \<longrightarrow> shouldRender s \<and> effectCleanup s = None) \<and>
      timers_ok opts s \<and>
      (mounted s \<and> \<not> isVisible s \<and> shouldRender s \<longrightarrow> (\<exists>t\<in>set (timers s). is_exit t)))"

text \<open>After teardown: the host has unmounted the instance, cleared the liveness flag and
  detached the ref.\<close>

definition silenced :: "hook_state \<Rightarrow> bool" where
  "silenced s = (\<not> mounted s \<and> \<not> isMountedRef s \<and> \<not> elementRef s)"

text \<open>A trace without style mutations: every recorded action is a callback invocation.\<close>

definition is_invoke :: "action \<Rightarrow> bool" where
  "is_invoke a = (case a of Invoke cb \<Rightarrow> True | SetTransition v \<Rightarrow> False | AssignStyle v \<Rightarrow> False)"

definition style_free :: "(nat \<times> action) list \<Rightarrow> bool" where
  "style_free tr = list_all (\<lambda>e. is_invoke (snd e)) tr"

text \<open>
  Three states of an instance with the scenario configuration and a bound node, used as
  concrete inputs: hidden and settled just after mounting; entered and settled; and in the
  middle of an exit with a frame callback, an \<^verbatim>\<open>onEntered\<close> timer and the exit timer all
  pending (lemmas \<open>hidden_example_reached\<close>, \<open>entered_example_reached\<close> and
  \<open>busy_example_reached\<close> show how they are reached).
\<close>

definition fade_preset :: js_value where
  "fade_preset =
     JObj [(''from'', JObj [(''opacity'', JStr ''0'')]), (''to'', JObj [(''opacity'', JStr ''1'')])]"

definition hidden_example :: hook_state where
  "hidden_example =
     \<lparr>isVisible = False, shouldRender = False, elementRef = False, isMountedRef = True,
      mounted = True, effectDeps = Some (False, 300, JStr ''fade'', ''ease-in-out''),
      layoutDeps = Some (False, False), effectCleanup = None, timers = [], frames = [],
      nextHandle = 0, now = 0, trace = []\<rparr>"

definition entered_example :: hook_state where
  "entered_example =
     \<lparr>isVisible = True, shouldRender = True, elementRef = True, isMountedRef = True,
      mounted = True, effectDeps = Some (True, 300, JStr ''fade'', ''ease-in-out''),
      layoutDeps = Some (True, True), effectCleanup = None, timers = [], frames = [],
      nextHandle = 1, now = 300,
      trace =
        [(0, Invoke OnEnter),
         (0, SetTransition ''none''),
         (0, AssignStyle (JObj [(''opacity'', JStr ''0'')])),
         (0, SetTransition ''all 300ms ease-in-out''),
         (0, AssignStyle (JObj [(''opacity'', JStr ''1'')])),
         (300, Invoke OnEntered)]\<rparr>"

definition busy_example :: hook_state where
  "busy_example =
     \<lparr>isVisible = False, shouldRender = True, elementRef = True, isMountedRef = True,
      mounted = True, effectDeps = Some (False, 300, JStr ''fade'', ''ease-in-out''),
      layoutDeps = Some (True, False), effectCleanup = Some 2,
      timers =
        [\<lparr>handle = 0, set_at = 32, delay = 300, task = EnteredTimeout True\<rparr>,
         \<lparr>handle = 2, set_at = 86, delay = 300, task = ExitTimeout True\<rparr>],
      frames = [InnerFrame fade_preset 300 ''ease-in-out'' True],
      nextHandle = 3, now = 86,
      trace =
        [(0, Invoke OnEnter),
         (0, SetTransition ''none''),
         (0, AssignStyle (JObj [(''opacity'', JStr ''0'')])),
         (32, SetTransition ''all 300ms ease-in-out''),
         (32, AssignStyle (JObj [(''opacity'', JStr ''1'')])),
         (50, Invoke OnExit),
         (50, SetTransition ''all 300ms ease-in-out''),
         (50, AssignStyle (JObj [(''opacity'', JStr ''0'')])),
         (60, SetTransition ''none''),
         (60, AssignStyle (JObj [(''opacity'', JStr ''0'')])),
         (60, Invoke OnEnter),
         (86, Invoke OnExit),
         (86, SetTransition ''all 300ms ease-in-out''),
         (86, AssignStyle (JObj [(''opacity'', JStr ''0'')]))]\<rparr>"

text \<open>
  The actions of one enter and of one exit, at time \<open>\<tau>\<close>, with the collapsed style \<open>f\<close>.
  On entering, the layout effect runs before the visibility effect when the element is
  already present, and in the render after it otherwise. \<open>exit_timer opts s\<close> is the timer
  that an exit begun in state \<open>s\<close> starts.
\<close>

definition enter_trace :: "TransitionOptions \<Rightarrow> bool \<Rightarrow> nat \<Rightarrow> js_value \<Rightarrow> (nat \<times> action) list" where
  "enter_trace opts present \<tau> f =
     (if present
      then [(\<tau>, SetTransition ''none''), (\<tau>, AssignStyle f)] @
           (if onEnter opts then [(\<tau>, Invoke OnEnter)] else [])
      else (if onEnter opts then [(\<tau>, Invoke OnEnter)] else []) @
           [(\<tau>, SetTransition ''none''), (\<tau>, AssignStyle f)])"

definition exit_trace :: "TransitionOptions \<Rightarrow> bool \<Rightarrow> nat \<Rightarrow> js_value \<Rightarrow> (nat \<times> action) list" where
  "exit_trace opts att \<tau> f =
     (if onExit opts then [(\<tau>, Invoke OnExit)] else []) @
     (if att then [(\<tau>, SetTransition (transition_css (duration_of opts) (timingFunction_of opts))),
                   (\<tau>, AssignStyle f)] else [])"

definition exit_timer :: "TransitionOptions \<Rightarrow> hook_state \<Rightarrow> timer" where
  "exit_timer opts s =
     \<lparr>handle = nextHandle s, set_at = now s, delay = duration_of opts,
      task = ExitTimeout (onExited opts)\<rparr>"

text \<open>What holds of every state of an instance whose caller never attaches the ref.\<close>

definition unbound_ok :: "TransitionOptions \<Rightarrow> hook_state \<Rightarrow> bool" where
  "unbound_ok opts s = (consistent False opts s \<and> style_free (trace s))"

text \<open>A configuration whose effect is \<^verbatim>\<open>null\<close>, with a duration of 200 ms.\<close>

definition null_effect_options :: TransitionOptions where
  "null_effect_options =
     \<lparr>duration = Some 200, effect = Some JNull, timingFunction = None,
      onEnter = True, onEntered = True, onExit = True, onExited = True\<rparr>"

definition unbound_shown_example :: hook_state where
  "unbound_shown_example =
     \<lparr>isVisible = True, shouldRender = True, elementRef = False, isMountedRef = True,
      mounted = True, effectDeps = Some (True, 200, JNull, ''ease-in-out''),
      layoutDeps = Some (True, True), effectCleanup = None, timers = [], frames = [],
      nextHandle = 0, now = 0, trace = [(0, Invoke OnEnter)]\<rparr>"

section \<open>Unfolding lemmas\<close>

lemmas resolver_defs =
  getEffectConfig_def member_def PRESETS_def inherited_def object_prototype_keys_def

lemmas model_defs =
  mount_def initial_def commit_def renderPass_def attachRef_def runLayoutEffect_def
  runVisibilityEffect_def runCleanup_def layoutEffect_def visibilityEffect_def applyStyle_def
  setShouldRender_def requestAnimationFrame_def clearTimeout_def setTimeout_def invoke_def
  emit_def fire_def unmount_def due_def transition_css_def duration_of_def effect_of_def
  timingFunction_of_def show_nat.simps digit_char_def fade_preset_def

section \<open>Computing the effects on a symbolic state\<close>

lemma and_then_Inr_iff:
  "and_then m f = Inr y \<longleftrightarrow> (\<exists>x. m = Inr x \<and> f x = Inr y)"
  by (cases m) simp_all

lemmas eff_defs = commit_def renderPass_def attachRef_def runLayoutEffect_def
  runVisibilityEffect_def layoutEffect_def visibilityEffect_def applyStyle_def
  setShouldRender_def requestAnimationFrame_def setTimeout_def invoke_def
  emit_def config_of_def

lemma runCleanup_fields [simp]:
  "isVisible (runCleanup s) = isVisible s"
  "shouldRender (runCleanup s) = shouldRender s"
  "elementRef (runCleanup s) = elementRef s"
  "isMountedRef (runCleanup s) = isMountedRef s"
  "mounted (runCleanup s) = mounted s"
  "effectDeps (runCleanup s) = effectDeps s"
  "layoutDeps (runCleanup s) = layoutDeps s"
  "effectCleanup (runCleanup s) = effectCleanup s"
  "frames (runCleanup s) = frames s"
  "nextHandle (runCleanup s) = nextHandle s"
  "now (runCleanup s) = now s"
  "trace (runCleanup s) = trace s"
  by (simp_all add: runCleanup_def clearTimeout_def split: option.split)

lemma committed_noop: "committed att opts s \<Longrightarrow> commit att opts s = Inr s"
  by (simp add: committed_def commit_def renderPass_def attachRef_def runLayoutEffect_def runVisibilityEffect_def)

lemma commit_enter_hidden:
  assumes "committed att opts s" "mounted s" "\<not> isVisible s" "\<not> shouldRender s"
  shows "commit att opts (s\<lparr>isVisible := True\<rparr>) =
     and_then (read_from att opts) (\<lambda>f. Inr (s\<lparr>isVisible := True, shouldRender := True, elementRef := att,
            effectDeps := Some (True, duration_of opts, effect_of opts, timingFunction_of opts),
            layoutDeps := Some (True, True), effectCleanup := None,
            timers := timers (runCleanup s),
            frames := frames s @ (if att then [OuterFrame (config_of opts) (duration_of opts) (timingFunction_of opts) (onEntered opts)] else []),
            trace := trace s @ (if onEnter opts then [(now s, Invoke OnEnter)] else [])
               @ (if att then [(now s, SetTransition ''none''), (now s, AssignStyle f)] else [])\<rparr>))"
  using assms
  apply (cases "get_prop (config_of opts) ''from''")
  apply (simp_all add: committed_def eff_defs read_from_def)
  apply (simp_all add: runCleanup_def clearTimeout_def split: option.split)
  done

lemma commit_enter_exiting:
  assumes "committed att opts s" "mounted s" "\<not> isVisible s" "shouldRender s"
  shows "commit att opts (s\<lparr>isVisible := True\<rparr>) =
     and_then (read_from att opts) (\<lambda>f. Inr (s\<lparr>isVisible := True,
            effectDeps := Some (True, duration_of opts, effect_of opts, timingFunction_of opts),
            layoutDeps := Some (True, True), effectCleanup := None,
            timers := timers (runCleanup s),
            frames := frames s @ (if att then [OuterFrame (config_of opts) (duration_of opts) (timingFunction_of opts) (onEntered opts)] else []),
            trace := trace s
               @ (if att then [(now s, SetTransition ''none''), (now s, AssignStyle f)] else [])
               @ (if onEnter opts then [(now s, Invoke OnEnter)] else [])\<rparr>))"
  using assms
  apply (cases "get_prop (config_of opts) ''from''")
  apply (simp_all add: committed_def eff_defs read_from_def)
  apply (simp_all add: runCleanup_def clearTimeout_def split: option.split)
  done

lemma commit_exit:
  assumes "committed att opts s" "mounted s" "isVisible s" "shouldRender s"
  shows "commit att opts (s\<lparr>isVisible := False\<rparr>) =
     and_then (read_from att opts) (\<lambda>f. Inr (s\<lparr>isVisible := False,
            effectDeps := Some (False, duration_of opts, effect_of opts, timingFunction_of opts),
            layoutDeps := Some (True, False), effectCleanup := Some (nextHandle s),
            timers := timers (runCleanup s) @
              [\<lparr>handle = nextHandle s, set_at = now s, delay = duration_of opts,
                task = ExitTimeout (onExited opts)\<rparr>],
            nextHandle := Suc (nextHandle s),
            trace := trace s
               @ (if onExit opts then [(now s, Invoke OnExit)] else [])
               @ (if att then [(now s, SetTransition (transition_css (duration_of opts) (timingFunction_of opts))),
                               (now s, AssignStyle f)] else [])\<rparr>))"
  using assms
  apply (cases "get_prop (config_of opts) ''from''")
  apply (simp_all add: committed_def eff_defs read_from_def)
  apply (simp_all add: runCleanup_def clearTimeout_def split: option.split)
  done

lemma fire_exit:
  assumes "find (\<lambda>t. handle t = h) (timers s) = Some t" "task t = ExitTimeout e"
    and "committed att opts s" "mounted s" "isMountedRef s" "\<not> isVisible s" "shouldRender s"
  shows "fire att opts h s =
     Inr (s\<lparr>shouldRender := False, elementRef := False,
            layoutDeps := Some (False, False),
            timers := filter (\<lambda>u. handle u \<noteq> h) (timers s),
            now := max (now s) (due t),
            trace := trace s @ (if e then [(max (now s) (due t), Invoke OnExited)] else [])\<rparr>)"
  using assms
  by (simp add: fire_def committed_def clearTimeout_def eff_defs Let_def)

lemma fire_entered:
  assumes "find (\<lambda>t. handle t = h) (timers s) = Some t" "task t = EnteredTimeout e"
  shows "fire att opts h s =
     Inr (s\<lparr>timers := filter (\<lambda>u. handle u \<noteq> h) (timers s),
            now := max (now s) (due t),
            trace := trace s @ (if isMountedRef s \<and> e then [(max (now s) (due t), Invoke OnEntered)] else [])\<rparr>)"
  using assms
  by (simp add: fire_def clearTimeout_def emit_def)

lemma timers_runCleanup_subset: "set (timers (runCleanup s)) \<subseteq> set (timers s)"
  by (auto simp add: runCleanup_def clearTimeout_def split: option.split)

lemma distinct_runCleanup:
  "distinct (map handle (timers s)) \<Longrightarrow> distinct (map handle (timers (runCleanup s)))"
  by (simp add: runCleanup_def clearTimeout_def distinct_map_filter split: option.split)

lemma no_exit_after_cleanup:
  assumes "timers_ok opts s" "t \<in> set (timers (runCleanup s))"
  shows "\<not> is_exit t"
  using assms
  by (auto simp add: timers_ok_def exit_timer_ok_def runCleanup_def clearTimeout_def split: option.splits)

lemma consistent_enter:
  assumes "consistent att opts s" "mounted s" "\<not> isVisible s"
    and "commit att opts (s\<lparr>isVisible := True\<rparr>) = Inr s'"
  shows "consistent att opts s'"
proof -
  from assms(1,2) have c: "committed att opts s" and m: "isMountedRef s" and tk: "timers_ok opts s"
    by (simp_all add: consistent_def)
  have sub: "set (timers (runCleanup s)) \<subseteq> set (timers s)" by (rule timers_runCleanup_subset)
  have ne: "\<forall>t\<in>set (timers (runCleanup s)). \<not> is_exit t"
    using no_exit_after_cleanup [OF tk] by blast
  have d: "distinct (map handle (timers (runCleanup s)))"
    using tk distinct_runCleanup by (simp add: timers_ok_def)
  have b: "\<forall>t\<in>set (timers (runCleanup s)). handle t < nextHandle s \<and> set_at t \<le> now s"
    using tk sub by (auto simp add: timers_ok_def)
  show ?thesis
  proof (cases "shouldRender s")
    case True
    from assms(4) commit_enter_exiting [OF c assms(2,3) True]
    obtain f where "s' = s\<lparr>isVisible := True,
            effectDeps := Some (True, duration_of opts, effect_of opts, timingFunction_of opts),
            layoutDeps := Some (True, True), effectCleanup := None,
            timers := timers (runCleanup s),
            frames := frames s @ (if att then [OuterFrame (config_of opts) (duration_of opts) (timingFunction_of opts) (onEntered opts)] else []),
            trace := trace s
               @ (if att then [(now s, SetTransition ''none''), (now s, AssignStyle f)] else [])
               @ (if onEnter opts then [(now s, Invoke OnEnter)] else [])\<rparr>"
      by (auto simp add: and_then_Inr_iff)
    then show ?thesis using c m True assms(2) ne d b
      by (simp add: consistent_def committed_def timers_ok_def)
  next
    case False
    from assms(4) commit_enter_hidden [OF c assms(2,3) False]
    obtain f where "s' = s\<lparr>isVisible := True, shouldRender := True, elementRef := att,
            effectDeps := Some (True, duration_of opts, effect_of opts, timingFunction_of opts),
            layoutDeps := Some (True, True), effectCleanup := None,
            timers := timers (runCleanup s),
            frames := frames s @ (if att then [OuterFrame (config_of opts) (duration_of opts) (timingFunction_of opts) (onEntered opts)] else []),
            trace := trace s @ (if onEnter opts then [(now s, Invoke OnEnter)] else [])
               @ (if att then [(now s, SetTransition ''none''), (now s, AssignStyle f)] else [])\<rparr>"
      by (auto simp add: and_then_Inr_iff)
    then show ?thesis using c m False assms(2) ne d b
      by (simp add: consistent_def committed_def timers_ok_def)
  qed
qed

lemma consistent_exit:
  assumes "consistent att opts s" "mounted s" "isVisible s"
    and "commit att opts (s\<lparr>isVisible := False\<rparr>) = Inr s'"
  shows "consistent att opts s'"
proof -
  from assms(1,2,3) have c: "committed att opts s" and m: "isMountedRef s" and tk: "timers_ok opts s"
    and sr: "shouldRender s" and ec: "effectCleanup s = None"
    by (simp_all add: consistent_def)
  from ec have rc: "timers (runCleanup s) = timers s" by (simp add: runCleanup_def)
  from tk assms(3) have ne: "\<forall>t\<in>set (timers s). \<not> is_exit t"
    by (auto simp add: timers_ok_def exit_timer_ok_def)
  from assms(4) commit_exit [OF c assms(2,3) sr]
  obtain f where "s' = s\<lparr>isVisible := False,
            effectDeps := Some (False, duration_of opts, effect_of opts, timingFunction_of opts),
            layoutDeps := Some (True, False), effectCleanup := Some (nextHandle s),
            timers := timers (runCleanup s) @
              [\<lparr>handle = nextHandle s, set_at = now s, delay = duration_of opts,
                task = ExitTimeout (onExited opts)\<rparr>],
            nextHandle := Suc (nextHandle s),
            trace := trace s
               @ (if onExit opts then [(now s, Invoke OnExit)] else [])
               @ (if att then [(now s, SetTransition (transition_css (duration_of opts) (timingFunction_of opts))),
                               (now s, AssignStyle f)] else [])\<rparr>"
    by (auto simp add: and_then_Inr_iff)
  then show ?thesis using c m sr assms(2) ne tk rc
    by (auto simp add: consistent_def committed_def timers_ok_def exit_timer_ok_def is_exit_def)
qed

lemma each_preserves:
  assumes "\<And>x s s'. P s \<Longrightarrow> f x s = Inr s' \<Longrightarrow> P s'"
    and "P s" and "each f xs s = Inr s'"
  shows "P s'"
  using assms(2,3)
proof (induction xs arbitrary: s)
  case Nil
  then show ?case by simp
next
  case (Cons x xs)
  from Cons.prems(2) obtain s1 where 1: "f x s = Inr s1" and 2: "each f xs s1 = Inr s'"
    by (auto simp add: and_then_Inr_iff)
  from assms(1) [OF Cons.prems(1) 1] have "P s1" .
  from Cons.IH [OF this 2] show ?case .
qed

lemma find_handle_SomeD:
  "find (\<lambda>t. handle t = h) ts = Some t \<Longrightarrow> t \<in> set ts \<and> handle t = h"
  by (induction ts) (auto split: if_splits)

lemma same_handle:
  assumes "distinct (map handle ts)" "t \<in> set ts" "u \<in> set ts" "handle u = handle t"
  shows "u = t"
  using assms by (meson distinct_map inj_on_def)

lemma consistent_fire:
  assumes "consistent att opts s" "fire att opts h s = Inr s'"
  shows "consistent att opts s' \<and> set (timers s') \<subseteq> set (timers s) \<and> h \<notin> handle ` set (timers s')"
proof (cases "find (\<lambda>t. handle t = h) (timers s)")
  case None
  then have "h \<notin> handle ` set (timers s)" by (auto simp add: find_None_iff)
  with None assms show ?thesis by (simp add: fire_def)
next
  case (Some t)
  from find_handle_SomeD [OF Some] have t: "t \<in> set (timers s)" "handle t = h" by simp_all
  from assms(1) have tk: "timers_ok opts s" by (simp add: consistent_def)
  show ?thesis
  proof (cases "task t")
    case (EnteredTimeout e)
    from fire_entered [OF Some EnteredTimeout] assms(2)
    have s': "s' = s\<lparr>timers := filter (\<lambda>u. handle u \<noteq> h) (timers s),
            now := max (now s) (due t),
            trace := trace s @ (if isMountedRef s \<and> e then [(max (now s) (due t), Invoke OnEntered)] else [])\<rparr>"
      by simp
    have keep: "\<And>u. u \<in> set (timers s) \<Longrightarrow> is_exit u \<Longrightarrow> handle u \<noteq> h"
    proof
      fix u assume u: "u \<in> set (timers s)" "is_exit u" "handle u = h"
      with tk t have "u = t" using same_handle [of "timers s" t u] by (simp add: timers_ok_def)
      with u(2) EnteredTimeout show False by (simp add: is_exit_def)
    qed
    from assms(1) have ex: "mounted s \<and> \<not> isVisible s \<and> shouldRender s \<longrightarrow>
        (\<exists>u\<in>set (timers s). is_exit u \<and> handle u \<noteq> h)"
      using keep by (auto simp add: consistent_def)
    show ?thesis using assms(1) s' ex
      by (auto simp add: consistent_def committed_def timers_ok_def exit_timer_ok_def distinct_map_filter)
  next
    case (ExitTimeout e)
    with t tk have ok: "exit_timer_ok opts s t" by (auto simp add: timers_ok_def is_exit_def)
    then have f: "mounted s" "\<not> isVisible s" "shouldRender s" "effectCleanup s = Some h"
      using t by (simp_all add: exit_timer_ok_def)
    with assms(1) have c: "committed att opts s" "isMountedRef s" by (simp_all add: consistent_def)
    from fire_exit [OF Some ExitTimeout c(1) f(1) c(2) f(2,3)] assms(2)
    have s': "s' = s\<lparr>shouldRender := False, elementRef := False,
            layoutDeps := Some (False, False),
            timers := filter (\<lambda>u. handle u \<noteq> h) (timers s),
            now := max (now s) (due t),
            trace := trace s @ (if e then [(max (now s) (due t), Invoke OnExited)] else [])\<rparr>"
      by simp
    have gone: "\<And>u. u \<in> set (timers s) \<Longrightarrow> handle u \<noteq> h \<Longrightarrow> \<not> is_exit u"
      using tk f(4) by (auto simp add: timers_ok_def exit_timer_ok_def)
    show ?thesis using assms(1) s' f c gone
      by (auto simp add: consistent_def committed_def timers_ok_def distinct_map_filter)
  qed
qed

lemma consistent_runFrame:
  assumes "consistent att opts s" "runFrame k s = Inr s'"
  shows "consistent att opts s'"
proof (cases k)
  case (OuterFrame c d tf e)
  with assms show ?thesis
    by (auto simp add: consistent_def committed_def timers_ok_def exit_timer_ok_def requestAnimationFrame_def)
next
  case (InnerFrame c d tf e)
  show ?thesis
  proof (cases "elementRef s")
    case False
    with assms InnerFrame show ?thesis by simp
  next
    case True
    with assms(2) InnerFrame obtain st where
      "s' = setTimeout (EnteredTimeout e) d (applyStyle st (emit (SetTransition (transition_css d tf)) s))"
      by (auto simp add: and_then_Inr_iff Let_def)
    then have s': "s' = s\<lparr>timers := timers s @ [\<lparr>handle = nextHandle s, set_at = now s, delay = d, task = EnteredTimeout e\<rparr>],
         nextHandle := Suc (nextHandle s),
         trace := trace s @ [(now s, SetTransition (transition_css d tf)), (now s, AssignStyle st)]\<rparr>"
      using True by (simp add: setTimeout_def applyStyle_def emit_def)
    show ?thesis using assms(1) unfolding s'
      by (auto simp add: consistent_def committed_def timers_ok_def exit_timer_ok_def is_exit_def)
  qed
qed

lemma consistent_frames_irrelevant: "consistent att opts (s\<lparr>frames := fs\<rparr>) = consistent att opts s"
  by (simp add: consistent_def committed_def timers_ok_def exit_timer_ok_def)

lemma consistent_unmount: "consistent att opts s \<Longrightarrow> consistent att opts (unmount s)"
proof -
  assume a: "consistent att opts s"
  then have tk: "timers_ok opts s" by (simp add: consistent_def)
  have ne: "\<forall>t\<in>set (timers (runCleanup s)). \<not> is_exit t"
    using no_exit_after_cleanup [OF tk] by blast
  have sub: "set (timers (runCleanup s)) \<subseteq> set (timers s)" by (rule timers_runCleanup_subset)
  have d: "distinct (map handle (timers (runCleanup s)))"
    using tk distinct_runCleanup by (simp add: timers_ok_def)
  have eq: "timers (runCleanup (s\<lparr>elementRef := False, isMountedRef := False\<rparr>)) = timers (runCleanup s)"
    by (simp add: runCleanup_def clearTimeout_def split: option.split)
  show ?thesis using a ne sub d tk
    by (auto simp add: consistent_def unmount_def eq timers_ok_def)
qed

lemma consistent_step:
  assumes "consistent att opts s" "step att opts ev s = Inr s'"
  shows "consistent att opts s'"
proof (cases ev)
  case (SetIsVisible a)
  show ?thesis
  proof (cases "mounted s")
    case False
    with assms SetIsVisible show ?thesis by simp
  next
    case True
    let ?v = "next_state a (isVisible s)"
    from assms(2) SetIsVisible True have c: "commit att opts (s\<lparr>isVisible := ?v\<rparr>) = Inr s'" by simp
    show ?thesis
    proof (cases "?v = isVisible s")
      case same: True
      from assms(1) \<open>mounted s\<close> have "committed att opts s" by (simp add: consistent_def)
      from committed_noop [OF this] c same assms(1) show ?thesis by simp
    next
      case False
      then show ?thesis
        using consistent_enter [OF assms(1) True, of s'] consistent_exit [OF assms(1) True, of s'] c
        by (cases "isVisible s") auto
    qed
  qed
next
  case Paint
  from assms(1) have "consistent att opts (s\<lparr>frames := []\<rparr>)" by (simp add: consistent_frames_irrelevant)
  from each_preserves [where P = "consistent att opts" and f = runFrame, OF consistent_runFrame this] assms(2) Paint
  show ?thesis by simp
next
  case (Wait n)
  let ?hs = "map handle (sort_key due (filter (\<lambda>t. due t \<le> now s + n) (timers s)))"
  from assms(2) Wait obtain s1 where 1: "each (fire att opts) ?hs s = Inr s1"
    and s': "s' = s1\<lparr>now := now s + n\<rparr>"
    by (auto simp add: and_then_Inr_iff)
  let ?P = "\<lambda>x. consistent att opts x \<and> set (timers x) \<subseteq> set (timers s)"
  have "?P s1"
  proof (rule each_preserves [where P = ?P and f = "fire att opts", OF _ _ 1])
    show "?P s" using assms(1) by simp
  next
    fix h x x' assume "?P x" "fire att opts h x = Inr x'"
    then show "?P x'" using consistent_fire [of att opts x h x'] by blast
  qed
  moreover from assms(1) have "\<forall>t\<in>set (timers s). set_at t \<le> now s + n"
    by (auto simp add: consistent_def timers_ok_def)
  ultimately show ?thesis unfolding s'
    by (auto simp add: consistent_def committed_def timers_ok_def exit_timer_ok_def)
next
  case Unmount
  with assms consistent_unmount show ?thesis by (cases "mounted s") auto
qed

lemma consistent_run:
  assumes "consistent att opts s" "run att opts evs s = Inr s'"
  shows "consistent att opts s'"
  using assms
proof (induction evs arbitrary: s)
  case Nil
  then show ?case by simp
next
  case (Cons ev evs)
  from Cons.prems(2) obtain s1 where 1: "step att opts ev s = Inr s1" and 2: "run att opts evs s1 = Inr s'"
    by (auto simp add: and_then_Inr_iff)
  from Cons.IH [OF consistent_step [OF Cons.prems(1) 1] 2] show ?case .
qed

lemma mount_hidden:
  "mount att opts False =
     Inr \<lparr>isVisible = False, shouldRender = False, elementRef = False, isMountedRef = True,
          mounted = True,
          effectDeps = Some (False, duration_of opts, effect_of opts, timingFunction_of opts),
          layoutDeps = Some (False, False), effectCleanup = None, timers = [], frames = [],
          nextHandle = 0, now = 0, trace = []\<rparr>"
  by (simp add: mount_def initial_def eff_defs runCleanup_def)

lemma mount_visible:
  "mount att opts True =
     and_then (read_from att opts) (\<lambda>f. Inr
        \<lparr>isVisible = True, shouldRender = True, elementRef = att, isMountedRef = True,
          mounted = True,
          effectDeps = Some (True, duration_of opts, effect_of opts, timingFunction_of opts),
          layoutDeps = Some (True, True), effectCleanup = None, timers = [],
          frames = (if att then [OuterFrame (config_of opts) (duration_of opts) (timingFunction_of opts) (onEntered opts)] else []),
          nextHandle = 0, now = 0,
          trace = (if att then [(0, SetTransition ''none''), (0, AssignStyle f)] else [])
             @ (if onEnter opts then [(0, Invoke OnEnter)] else [])\<rparr>)"
  by (cases "get_prop (config_of opts) ''from''")
     (simp_all add: mount_def initial_def eff_defs runCleanup_def read_from_def)

lemma consistent_mount:
  assumes "mount att opts iv = Inr s"
  shows "consistent att opts s"
proof (cases iv)
  case False
  with assms mount_hidden [of att opts] show ?thesis
    by (auto simp add: consistent_def committed_def timers_ok_def)
next
  case True
  with assms mount_visible [of att opts] show ?thesis
    by (auto simp add: and_then_Inr_iff consistent_def committed_def timers_ok_def)
qed

section \<open>How timers and the setter change a consistent state\<close>

lemma each_keeps:
  assumes "\<And>x s. P s \<Longrightarrow> \<exists>s'. f x s = Inr s' \<and> P s' \<and> g s' = g s"
    and "P s"
  shows "\<exists>s'. each f xs s = Inr s' \<and> P s' \<and> g s' = g s"
  using assms(2)
proof (induction xs arbitrary: s)
  case Nil
  then show ?case by simp
next
  case (Cons x xs)
  from assms(1) [OF Cons.prems] obtain s1 where 1: "f x s = Inr s1" "P s1" "g s1 = g s"
    by blast
  from Cons.IH [OF 1(2)] obtain s' where "each f xs s1 = Inr s'" "P s'" "g s' = g s1"
    by blast
  with 1 show ?case by simp
qed

lemma fire_cases:
  assumes "consistent att opts s" "fire att opts h s = Inr s'"
  obtains
    (absent) "h \<notin> handle ` set (timers s)" "s' = s"
  | (entered) t e where "t \<in> set (timers s)" "handle t = h" "task t = EnteredTimeout e"
      "s' = s\<lparr>timers := filter (\<lambda>u. handle u \<noteq> h) (timers s),
            now := max (now s) (due t),
            trace := trace s @ (if isMountedRef s \<and> e then [(max (now s) (due t), Invoke OnEntered)] else [])\<rparr>"
  | (exit) t where "t \<in> set (timers s)" "handle t = h" "exit_timer_ok opts s t" "isMountedRef s"
      "s' = s\<lparr>shouldRender := False, elementRef := False,
            layoutDeps := Some (False, False),
            timers := filter (\<lambda>u. handle u \<noteq> h) (timers s),
            now := max (now s) (due t),
            trace := trace s @ (if onExited opts then [(max (now s) (due t), Invoke OnExited)] else [])\<rparr>"
proof (cases "find (\<lambda>t. handle t = h) (timers s)")
  case None
  then have 1: "h \<notin> handle ` set (timers s)" by (auto simp add: find_None_iff)
  from None assms(2) have 2: "s' = s" by (simp add: fire_def)
  from absent [OF 1 2] show ?thesis .
next
  case (Some t)
  from find_handle_SomeD [OF Some] have t: "t \<in> set (timers s)" "handle t = h" by simp_all
  from assms(1) have tk: "timers_ok opts s" by (simp add: consistent_def)
  show ?thesis
  proof (cases "task t")
    case (EnteredTimeout e)
    from fire_entered [OF Some EnteredTimeout] assms(2)
    have "s' = s\<lparr>timers := filter (\<lambda>u. handle u \<noteq> h) (timers s),
            now := max (now s) (due t),
            trace := trace s @ (if isMountedRef s \<and> e then [(max (now s) (due t), Invoke OnEntered)] else [])\<rparr>"
      by simp
    from entered [OF t EnteredTimeout this] show ?thesis .
  next
    case (ExitTimeout e)
    with t tk have ok: "exit_timer_ok opts s t" by (auto simp add: timers_ok_def is_exit_def)
    then have f: "mounted s" "\<not> isVisible s" "shouldRender s" "e = onExited opts"
      using ExitTimeout by (simp_all add: exit_timer_ok_def)
    with assms(1) have c: "committed att opts s" "isMountedRef s" by (simp_all add: consistent_def)
    from fire_exit [OF Some ExitTimeout c(1) f(1) c(2) f(2,3)] assms(2) f(4)
    have "s' = s\<lparr>shouldRender := False, elementRef := False,
            layoutDeps := Some (False, False),
            timers := filter (\<lambda>u. handle u \<noteq> h) (timers s),
            now := max (now s) (due t),
            trace := trace s @ (if onExited opts then [(max (now s) (due t), Invoke OnExited)] else [])\<rparr>"
      by simp
    from exit [OF t ok c(2) this] show ?thesis .
  qed
qed

lemma fire_cells:
  assumes "consistent att opts s" "fire att opts h s = Inr s'"
  shows "isVisible s' = isVisible s \<and> mounted s' = mounted s \<and> isMountedRef s' = isMountedRef s"
  using assms by (cases rule: fire_cases) simp_all

lemma fire_flip:
  assumes "consistent att opts s" "fire att opts h s = Inr s'" "shouldRender s" "\<not> shouldRender s'"
  shows "\<exists>t\<in>set (timers s). handle t = h \<and> task t = ExitTimeout (onExited opts) \<and>
           delay t = duration_of opts \<and> isMountedRef s'"
  using assms by (cases rule: fire_cases) (auto simp add: exit_timer_ok_def)

lemma each_fire_consistent:
  assumes "consistent att opts s" "each (fire att opts) hs s = Inr s'"
  shows "consistent att opts s' \<and> set (timers s') \<subseteq> set (timers s) \<and>
     isVisible s' = isVisible s \<and> mounted s' = mounted s \<and> isMountedRef s' = isMountedRef s \<and>
     (\<forall>h\<in>set hs. h \<notin> handle ` set (timers s'))"
  using assms
proof (induction hs arbitrary: s)
  case Nil
  then show ?case by simp
next
  case (Cons h hs)
  from Cons.prems(2) obtain s1 where 1: "fire att opts h s = Inr s1"
    and 2: "each (fire att opts) hs s1 = Inr s'"
    by (auto simp add: and_then_Inr_iff)
  note a = consistent_fire [OF Cons.prems(1) 1] fire_cells [OF Cons.prems(1) 1]
  from a have c1: "consistent att opts s1" by simp
  from Cons.IH [OF c1 2] a show ?case by auto
qed

lemma each_fire_flip:
  assumes "consistent att opts s" "each (fire att opts) hs s = Inr s'"
    and "shouldRender s" "\<not> shouldRender s'"
  shows "\<exists>t\<in>set (timers s). handle t \<in> set hs \<and> task t = ExitTimeout (onExited opts) \<and>
           delay t = duration_of opts \<and> isMountedRef s'"
  using assms
proof (induction hs arbitrary: s)
  case Nil
  then show ?case by simp
next
  case (Cons h hs)
  from Cons.prems(2) obtain s1 where 1: "fire att opts h s = Inr s1"
    and 2: "each (fire att opts) hs s1 = Inr s'"
    by (auto simp add: and_then_Inr_iff)
  note a = consistent_fire [OF Cons.prems(1) 1]
  from a have c1: "consistent att opts s1" by simp
  show ?case
  proof (cases "shouldRender s1")
    case True
    from Cons.IH [OF c1 2 True Cons.prems(4)] a show ?thesis by auto
  next
    case False
    from fire_flip [OF Cons.prems(1) 1 Cons.prems(3) False]
    obtain t where t: "t \<in> set (timers s)" "handle t = h" "task t = ExitTimeout (onExited opts)"
      "delay t = duration_of opts" "isMountedRef s1" by blast
    from each_fire_consistent [OF c1 2] t(5) have "isMountedRef s'" by simp
    with t show ?thesis by auto
  qed
qed

lemma runFrame_shouldRender: "runFrame k s = Inr s' \<Longrightarrow> shouldRender s' = shouldRender s"
  by (cases k)
     (auto simp add: requestAnimationFrame_def setTimeout_def applyStyle_def emit_def Let_def
        and_then_Inr_iff split: if_splits)

lemma paint_shouldRender:
  assumes "step att opts Paint s = Inr s'"
  shows "shouldRender s' = shouldRender s"
proof -
  have "shouldRender (s\<lparr>frames := []\<rparr>) = shouldRender s" by simp
  from each_preserves [where P = "\<lambda>x. shouldRender x = shouldRender s" and f = runFrame, OF _ this]
    runFrame_shouldRender assms
  show ?thesis by auto
qed

lemma setter_keeps_presence:
  assumes "consistent att opts s" "step att opts (SetIsVisible a) s = Inr s'" "shouldRender s"
  shows "shouldRender s'"
proof (cases "mounted s")
  case False
  with assms show ?thesis by simp
next
  case True
  from assms(1) True have c: "committed att opts s" by (simp add: consistent_def)
  let ?v = "next_state a (isVisible s)"
  from assms(2) True have k: "commit att opts (s\<lparr>isVisible := ?v\<rparr>) = Inr s'" by simp
  show ?thesis
  proof (cases "?v = isVisible s")
    case same: True
    from committed_noop [OF c] k same assms(3) show ?thesis by simp
  next
    case False
    show ?thesis
    proof (cases "isVisible s")
      case v: True
      with False have "?v = False" by simp
      with k commit_exit [OF c True v assms(3)] assms(3) show ?thesis
        by (auto simp add: and_then_Inr_iff)
    next
      case v: False
      with False have "?v = True" by simp
      with k commit_enter_exiting [OF c True v assms(3)] assms(3) show ?thesis
        by (auto simp add: and_then_Inr_iff)
    qed
  qed
qed

lemma setter_result:
  assumes "consistent att opts s" "mounted s" "step att opts (SetIsVisible a) s = Inr s'"
  shows "isVisible s' = next_state a (isVisible s) \<and> mounted s'"
proof -
  from assms(1,2) have c: "committed att opts s" by (simp add: consistent_def)
  let ?v = "next_state a (isVisible s)"
  from assms(2,3) have k: "commit att opts (s\<lparr>isVisible := ?v\<rparr>) = Inr s'" by simp
  show ?thesis
  proof (cases "?v = isVisible s")
    case same: True
    from committed_noop [OF c] k same assms(2) show ?thesis by simp
  next
    case False
    show ?thesis
    proof (cases "isVisible s")
      case v: True
      with False have nv: "?v = False" by simp
      from assms(1) v have sr: "shouldRender s" by (simp add: consistent_def)
      from k commit_exit [OF c assms(2) v sr] assms(2) show ?thesis
        by (auto simp add: nv and_then_Inr_iff)
    next
      case v: False
      with False have nv: "?v = True" by simp
      show ?thesis
      proof (cases "shouldRender s")
        case sr: True
        from k commit_enter_exiting [OF c assms(2) v sr] assms(2) show ?thesis
          by (auto simp add: nv and_then_Inr_iff)
      next
        case sr: False
        from k commit_enter_hidden [OF c assms(2) v sr] assms(2) show ?thesis
          by (auto simp add: nv and_then_Inr_iff)
      qed
    qed
  qed
qed

lemma find_handle_unique:
  assumes "distinct (map handle ts)" "t \<in> set ts"
  shows "find (\<lambda>u. handle u = handle t) ts = Some t"
proof (cases "find (\<lambda>u. handle u = handle t) ts")
  case None
  with assms(2) show ?thesis by (auto simp add: find_None_iff)
next
  case (Some u)
  from find_handle_SomeD [OF Some] same_handle [OF assms(1) assms(2), of u] Some
  show ?thesis by simp
qed

lemma fire_pending_exit:
  assumes "consistent att opts x" "t \<in> set (timers x)" "is_exit t"
  shows "fire att opts (handle t) x =
     Inr (x\<lparr>shouldRender := False, elementRef := False,
            layoutDeps := Some (False, False),
            timers := filter (\<lambda>u. handle u \<noteq> handle t) (timers x),
            now := max (now x) (due t),
            trace := trace x @ (if onExited opts then [(max (now x) (due t), Invoke OnExited)] else [])\<rparr>)"
proof -
  from assms have tk: "timers_ok opts x" by (simp add: consistent_def)
  with assms(2,3) have ok: "exit_timer_ok opts x t" by (simp add: timers_ok_def)
  then have f: "mounted x" "\<not> isVisible x" "shouldRender x" "task t = ExitTimeout (onExited opts)"
    by (simp_all add: exit_timer_ok_def)
  with assms(1) have c: "committed att opts x" "isMountedRef x" by (simp_all add: consistent_def)
  from tk have "distinct (map handle (timers x))" by (simp add: timers_ok_def)
  from find_handle_unique [OF this assms(2)] have fd: "find (\<lambda>u. handle u = handle t) (timers x) = Some t" .
  from fire_exit [OF fd f(4) c(1) f(1) c(2) f(2,3)] show ?thesis .
qed

lemma exit_completes:
  assumes "consistent att opts s" "mounted s" "\<not> isVisible s" "duration_of opts \<le> n"
    and "step att opts (Wait n) s = Inr s'"
  shows "\<not> shouldRender s' \<and> \<not> elementRef s'"
proof -
  let ?hs = "map handle (sort_key due (filter (\<lambda>t. due t \<le> now s + n) (timers s)))"
  from assms(5) obtain s1 where e: "each (fire att opts) ?hs s = Inr s1"
    and s': "s' = s1\<lparr>now := now s + n\<rparr>"
    by (auto simp add: and_then_Inr_iff)
  note f = each_fire_consistent [OF assms(1) e]
  from consistent_step [OF assms(1,5)] have c': "consistent att opts s'" .
  have nsr: "\<not> shouldRender s'"
  proof
    assume sr: "shouldRender s'"
    from f assms(2,3) s' have "mounted s'" "\<not> isVisible s'" by simp_all
    with c' sr obtain t where t: "t \<in> set (timers s')" "is_exit t"
      by (auto simp add: consistent_def)
    with c' have "delay t = duration_of opts"
      by (auto simp add: consistent_def timers_ok_def exit_timer_ok_def)
    moreover from t(1) s' f have ts: "t \<in> set (timers s)" by auto
    moreover from assms(1) ts have "set_at t \<le> now s" by (auto simp add: consistent_def timers_ok_def)
    ultimately have "due t \<le> now s + n" using assms(4) by (simp add: due_def)
    with ts have "handle t \<in> set ?hs" by auto
    with f have "handle t \<notin> handle ` set (timers s1)" by blast
    with t(1) s' show False by auto
  qed
  moreover from c' nsr f assms(2) s' have "\<not> elementRef s'"
    by (auto simp add: consistent_def committed_def)
  ultimately show ?thesis by simp
qed

text \<open>The second render of a commit changes neither state cell, so two renders suffice.\<close>

lemma runLayoutEffect_cells:
  assumes "runLayoutEffect opts s = Inr s'"
  shows "isVisible s' = isVisible s \<and> shouldRender s' = shouldRender s \<and>
     effectDeps s' = effectDeps s \<and> mounted s' = mounted s"
  using assms
  by (auto simp add: runLayoutEffect_def layoutEffect_def Let_def and_then_Inr_iff
        requestAnimationFrame_def applyStyle_def emit_def split: if_splits)

lemma runVisibilityEffect_fresh:
  assumes "runVisibilityEffect opts s = Inr s'"
  shows "isVisible s' = isVisible s \<and>
     effectDeps s' = Some (isVisible s', duration_of opts, effect_of opts, timingFunction_of opts)"
  using assms
  by (auto simp add: runVisibilityEffect_def visibilityEffect_def Let_def and_then_Inr_iff
        setShouldRender_def invoke_def setTimeout_def applyStyle_def emit_def split: if_splits)

lemma renderPass_settles:
  assumes "renderPass att opts s = Inr s1" "renderPass att opts s1 = Inr s2"
  shows "isVisible s2 = isVisible s1 \<and> shouldRender s2 = shouldRender s1"
proof -
  from assms(1) obtain m where m: "runLayoutEffect opts (attachRef att s) = Inr m"
    "runVisibilityEffect opts m = Inr s1"
    by (auto simp add: renderPass_def and_then_Inr_iff)
  from runVisibilityEffect_fresh [OF m(2)]
  have fresh: "effectDeps s1 =
      Some (isVisible s1, duration_of opts, effect_of opts, timingFunction_of opts)"
    by simp
  from assms(2) obtain m' where m': "runLayoutEffect opts (attachRef att s1) = Inr m'"
    "runVisibilityEffect opts m' = Inr s2"
    by (auto simp add: renderPass_def and_then_Inr_iff)
  from runLayoutEffect_cells [OF m'(1)] fresh
  have "isVisible m' = isVisible s1" "shouldRender m' = shouldRender s1"
    "effectDeps m' = Some (isVisible m', duration_of opts, effect_of opts, timingFunction_of opts)"
    by (simp_all add: attachRef_def)
  with m'(2) show ?thesis by (simp add: runVisibilityEffect_def)
qed

section \<open>The example states are reachable\<close>

lemma hidden_example_reached: "mount True scenario_options False = Inr hidden_example"
  by (simp add: model_defs resolver_defs scenario_options_def hidden_example_def)

lemma entered_example_reached:
  "run True scenario_options [SetIsVisible (Value True), Paint, Paint, Wait 300] hidden_example
     = Inr entered_example"
  by (simp add: model_defs resolver_defs scenario_options_def hidden_example_def
        entered_example_def)

lemma busy_example_reached:
  "run True scenario_options
     [SetIsVisible (Value True), Wait 16, Paint, Wait 16, Paint, Wait 18,
      SetIsVisible (Value False), Wait 10, SetIsVisible (Value True), Wait 16, Paint, Wait 10,
      SetIsVisible (Value False)] hidden_example
     = Inr busy_example"
  by (simp add: model_defs resolver_defs scenario_options_def hidden_example_def
        busy_example_def)

section \<open>The effect resolver: claims C7, C8 and C10\<close>

lemma member_PRESETS_fade:
  "member PRESETS ''fade'' =
     JObj [(''from'', JObj [(''opacity'', JStr ''0'')]), (''to'', JObj [(''opacity'', JStr ''1'')])]"
  by (simp add: member_def PRESETS_def)

text \<open>
  A name that is neither a preset nor a member of \<^verbatim>\<open>Object.prototype\<close> does resolve to the
  fade preset.
\<close>

lemma getEffectConfig_fallback:
  assumes "name \<notin> set (map fst PRESETS)" and "name \<notin> set object_prototype_keys"
  shows "getEffectConfig (JStr name) =
     JObj [(''from'', JObj [(''opacity'', JStr ''0'')]), (''to'', JObj [(''opacity'', JStr ''1'')])]"
  using assms by (simp add: getEffectConfig_def member_def PRESETS_def inherited_def)

text \<open>
  Claim C7 says that every string that is not a preset name resolves to the fade preset.
  The lookup \<^verbatim>\<open>PRESETS[effect]\<close> is a property read on an object literal, so it also finds
  what the literal inherits: for the string \<^verbatim>\<open>"constructor"\<close> it yields the built-in
  function \<^verbatim>\<open>Object\<close>, which is truthy, and the \<^verbatim>\<open>|| PRESETS.fade\<close> fallback is not taken.
  The resolver then returns that function and not the fade preset.
\<close>

theorem getEffectConfig_inherited_name:
  "getEffectConfig (JStr ''constructor'') = JBuiltin ''constructor'' \<and>
   getEffectConfig (JStr ''constructor'') \<noteq>
     JObj [(''from'', JObj [(''opacity'', JStr ''0'')]), (''to'', JObj [(''opacity'', JStr ''1'')])]"
  by (simp add: resolver_defs)

text \<open>
  Claim C8: an explicit pair of keyframes passed as the effect is what the resolver
  returns, and the styles the hook then reads from the result under \<^verbatim>\<open>from\<close> and \<^verbatim>\<open>to\<close> are
  the supplied ones, whatever they are; no preset is consulted.
\<close>

theorem getEffectConfig_custom_keyframes:
  "getEffectConfig (JObj [(''from'', f), (''to'', t)]) = JObj [(''from'', f), (''to'', t)] \<and>
   get_prop (getEffectConfig (JObj [(''from'', f), (''to'', t)])) ''from'' = Inr f \<and>
   get_prop (getEffectConfig (JObj [(''from'', f), (''to'', t)])) ''to'' = Inr t"
  by (simp add: getEffectConfig_def member_def)

text \<open>
  Claim C10: a value of the variable \<^verbatim>\<open>effect\<close> whose \<^verbatim>\<open>typeof\<close> is not \<^verbatim>\<open>"string"\<close> is
  returned by the resolver as it is. The resolver inspects nothing else of the value, so an
  object without a \<^verbatim>\<open>from\<close> or \<^verbatim>\<open>to\<close> field, a number or \<^verbatim>\<open>null\<close> pass through; the fallback
  to the fade preset exists on the string branch only.
\<close>

theorem getEffectConfig_non_string:
  "typeof_js e \<noteq> ''string'' \<Longrightarrow> getEffectConfig e = e"
  by (cases e) (simp_all add: getEffectConfig_def)

theorem getEffectConfig_non_string_witness:
  "typeof_js (JObj [(''from'', JObj [(''opacity'', JStr ''0'')])]) \<noteq> ''string'' \<and>
   getEffectConfig (JObj [(''from'', JObj [(''opacity'', JStr ''0'')])]) =
     JObj [(''from'', JObj [(''opacity'', JStr ''0'')])]"
  using getEffectConfig_non_string [of "JObj [(''from'', JObj [(''opacity'', JStr ''0'')])]"]
  by simp

section \<open>A superseded enter: claim C1\<close>

text \<open>
  Claim C1 says that a transition superseded by a new change of the visibility intent has
  its pending frame callbacks and timer cancelled, so that in Scenario D (the setter is
  called with \<^verbatim>\<open>true\<close> at 0 ms and with \<^verbatim>\<open>false\<close> at 50 ms, duration 300 ms) \<^verbatim>\<open>onEntered\<close>
  never fires. The exit branch of the visibility effect returns a cleanup for its timer,
  but the layout effect returns none for its frame callbacks and its \<^verbatim>\<open>onEntered\<close> timer.
  With a bound node and paint opportunities at 16 ms and 32 ms, the \<^verbatim>\<open>onEntered\<close> timer is
  started at 32 ms, survives the call of the setter at 50 ms, and \<^verbatim>\<open>onEntered\<close> is invoked at
  332 ms, in the middle of the exit. \<^verbatim>\<open>onExit\<close> at 50 ms and \<^verbatim>\<open>onExited\<close> at 350 ms are as
  the scenario says.
\<close>

theorem scenario_D_onEntered_fires:
  "\<exists>s. and_then (mount True scenario_options False)
         (run True scenario_options
            [SetIsVisible (Value True), Wait 16, Paint, Wait 16, Paint, Wait 18,
             SetIsVisible (Value False), Wait 300]) = Inr s \<and>
       trace s =
         [(0, Invoke OnEnter),
          (0, SetTransition ''none''),
          (0, AssignStyle (JObj [(''opacity'', JStr ''0'')])),
          (32, SetTransition ''all 300ms ease-in-out''),
          (32, AssignStyle (JObj [(''opacity'', JStr ''1'')])),
          (50, Invoke OnExit),
          (50, SetTransition ''all 300ms ease-in-out''),
          (50, AssignStyle (JObj [(''opacity'', JStr ''0'')])),
          (332, Invoke OnEntered),
          (350, Invoke OnExited)]"
  by (simp add: model_defs resolver_defs scenario_options_def)

section \<open>Teardown: claim C2\<close>

text \<open>
  Once the instance is torn down, a frame callback finds no node (the inner callback returns
  on line 131, the outer one only registers the inner one), a timer callback finds
  \<^verbatim>\<open>isMountedRef.current\<close> false (lines 113 and 137), and the setter no longer causes a
  render: no event adds to the trace.
\<close>

lemma runFrame_silenced:
  "silenced s \<Longrightarrow> \<exists>s'. runFrame k s = Inr s' \<and> silenced s' \<and> trace s' = trace s"
  by (cases k) (simp_all add: silenced_def requestAnimationFrame_def)

lemma fire_silenced:
  assumes "silenced s"
  shows "\<exists>s'. fire att opts h s = Inr s' \<and> silenced s' \<and> trace s' = trace s"
proof (cases "find (\<lambda>t. handle t = h) (timers s)")
  case None
  with assms show ?thesis by (simp add: fire_def)
next
  case (Some t)
  with assms show ?thesis
    by (cases "task t") (simp_all add: fire_def silenced_def clearTimeout_def)
qed

lemma step_silenced:
  assumes "silenced s"
  shows "\<exists>s'. step att opts ev s = Inr s' \<and> silenced s' \<and> trace s' = trace s"
proof (cases ev)
  case (SetIsVisible a)
  with assms show ?thesis by (simp add: silenced_def)
next
  case Paint
  from assms have "silenced (s\<lparr>frames := []\<rparr>)" by (simp add: silenced_def)
  from each_keeps [where P = silenced and f = runFrame and g = trace, OF runFrame_silenced this]
  show ?thesis using Paint by simp
next
  case (Wait n)
  from each_keeps [where P = silenced and f = "fire att opts" and g = trace, OF fire_silenced assms]
  obtain s1 where "each (fire att opts)
      (map handle (sort_key due (filter (\<lambda>t. due t \<le> now s + n) (timers s)))) s = Inr s1"
     "silenced s1" "trace s1 = trace s" by blast
  then show ?thesis using Wait by (simp add: silenced_def)
next
  case Unmount
  with assms show ?thesis by (simp add: silenced_def)
qed

lemma run_silenced:
  "silenced s \<Longrightarrow> \<exists>s'. run att opts evs s = Inr s' \<and> silenced s' \<and> trace s' = trace s"
proof (induction evs arbitrary: s)
  case Nil
  then show ?case by simp
next
  case (Cons ev evs)
  from step_silenced [OF Cons.prems] obtain s1 where
    1: "step att opts ev s = Inr s1" "silenced s1" "trace s1 = trace s" by blast
  from Cons.IH [OF 1(2)] 1 show ?case by auto
qed

lemma unmount_silenced: "silenced (unmount s) \<and> trace (unmount s) = trace s"
  by (simp add: unmount_def silenced_def runCleanup_def clearTimeout_def split: option.split)

text \<open>
  Claim C2: the owning instance is torn down in an arbitrary mounted state \<open>s\<close>, whatever
  timers and frame callbacks are pending in it. Whatever happens afterwards (any sequence
  \<open>evs\<close> of paint opportunities, elapsing time, calls of the setter), the run does not fail
  and its trace is the trace at teardown: no lifecycle callback is invoked and no style is
  mutated after teardown.
\<close>

theorem teardown_silences:
  assumes "mounted s"
  shows "\<exists>s'. run att opts (Unmount # evs) s = Inr s' \<and> trace s' = trace s"
proof -
  from unmount_silenced have "silenced (unmount s)" "trace (unmount s) = trace s" by simp_all
  with run_silenced [of "unmount s" att opts evs] assms show ?thesis by auto
qed

theorem teardown_silences_witness:
  "mounted busy_example \<and>
   (\<exists>s'. run True scenario_options [Unmount, Paint, Wait 100, Paint, Wait 1000] busy_example
            = Inr s' \<and> trace s' = trace busy_example)"
proof -
  have m: "mounted busy_example" by (simp add: busy_example_def)
  from teardown_silences [OF m] m show ?thesis by blast
qed

section \<open>Idempotence of the setter: claim C9\<close>

text \<open>
  Claim C9: in every state an instance reaches (in particular in the settled ones), calling
  the setter with the current value of the intent, or with an updater that returns it,
  leaves the whole state as it is: the pending timers and frame callbacks and the trace of
  callbacks and style mutations are unchanged. Both effects are keyed on the state cells
  (lines 120 and 142), which did not change.
\<close>

theorem setter_same_value_noop:
  assumes "mount att opts iv = Inr s0" and "run att opts evs s0 = Inr s"
    and "next_state a (isVisible s) = isVisible s"
  shows "step att opts (SetIsVisible a) s = Inr s"
proof (cases "mounted s")
  case False
  then show ?thesis by simp
next
  case True
  from consistent_run [OF consistent_mount [OF assms(1)] assms(2)] True
  have "committed att opts s" by (simp add: consistent_def)
  from committed_noop [OF this] True assms(3) show ?thesis by simp
qed

theorem setter_same_value_noop_witness:
  "mount True scenario_options False = Inr hidden_example \<and>
   run True scenario_options [SetIsVisible (Value True), Paint, Paint, Wait 300] hidden_example
     = Inr entered_example \<and>
   next_state (Value True) (isVisible entered_example) = isVisible entered_example \<and>
   step True scenario_options (SetIsVisible (Value True)) entered_example = Inr entered_example"
proof -
  have 3: "next_state (Value True) (isVisible entered_example) = isVisible entered_example"
    by (simp add: entered_example_def)
  from setter_same_value_noop [OF hidden_example_reached entered_example_reached 3]
    hidden_example_reached entered_example_reached 3
  show ?thesis by simp
qed

section \<open>Presence: claim C3\<close>

text \<open>
  What the code does guarantee, in every state \<open>s\<close> that an instance reaches from mounting:
  while the intent \<open>isVisible\<close> is true and while an exit timer is pending the presence flag
  \<open>shouldRender\<close> is true, and presence turns from true to false only in a step that lets time
  pass up to or beyond the due time of the pending exit timer, which was started with the
  configured duration when the exit began, with \<^verbatim>\<open>isMountedRef.current\<close> true. The frame
  callbacks and the \<^verbatim>\<open>onEntered\<close> timer of an enter are not covered by this: they survive the
  end of the intent.
\<close>

lemma presence_while_intended:
  assumes "mount att opts iv = Inr s0" and "run att opts evs s0 = Inr s"
  shows "(isVisible s \<longrightarrow> shouldRender s) \<and>
    (\<forall>t\<in>set (timers s). is_exit t \<longrightarrow> shouldRender s) \<and>
    (\<forall>ev s'. step att opts ev s = Inr s' \<and> shouldRender s \<and> \<not> shouldRender s' \<longrightarrow>
       isMountedRef s' \<and>
       (\<exists>n t. ev = Wait n \<and> t \<in> set (timers s) \<and> task t = ExitTimeout (onExited opts) \<and>
              delay t = duration_of opts \<and> set_at t + duration_of opts \<le> now s'))"
proof -
  from consistent_run [OF consistent_mount [OF assms(1)] assms(2)]
  have c: "consistent att opts s" .
  then have 1: "isVisible s \<longrightarrow> shouldRender s" by (simp add: consistent_def)
  from c have 2: "\<forall>t\<in>set (timers s). is_exit t \<longrightarrow> shouldRender s"
    by (auto simp add: consistent_def timers_ok_def exit_timer_ok_def)
  have 3: "isMountedRef s' \<and>
       (\<exists>n t. ev = Wait n \<and> t \<in> set (timers s) \<and> task t = ExitTimeout (onExited opts) \<and>
              delay t = duration_of opts \<and> set_at t + duration_of opts \<le> now s')"
    if st: "step att opts ev s = Inr s'" and p: "shouldRender s" and q: "\<not> shouldRender s'"
    for ev s'
  proof (cases ev)
    case (SetIsVisible a)
    with setter_keeps_presence [OF c _ p] st q show ?thesis by simp
  next
    case Paint
    with paint_shouldRender st p q show ?thesis by simp
  next
    case Unmount
    with st p q show ?thesis
      by (cases "mounted s") (auto simp add: unmount_def)
  next
    case (Wait n)
    let ?due = "filter (\<lambda>t. due t \<le> now s + n) (timers s)"
    let ?hs = "map handle (sort_key due ?due)"
    from st Wait obtain s1 where e: "each (fire att opts) ?hs s = Inr s1"
      and s': "s' = s1\<lparr>now := now s + n\<rparr>"
      by (auto simp add: and_then_Inr_iff)
    from q s' have q1: "\<not> shouldRender s1" by simp
    from each_fire_flip [OF c e p q1]
    obtain t where t: "t \<in> set (timers s)" "handle t \<in> set ?hs"
      "task t = ExitTimeout (onExited opts)" "delay t = duration_of opts" "isMountedRef s1"
      by blast
    from t(2) obtain u where u: "u \<in> set (timers s)" "due u \<le> now s + n" "handle u = handle t"
      by auto
    from c have "distinct (map handle (timers s))" by (simp add: consistent_def timers_ok_def)
    from same_handle [OF this t(1) u(1) u(3)] u(2) have "due t \<le> now s + n" by simp
    with t s' Wait show ?thesis by (auto simp add: due_def)
  qed
  from 1 2 3 show ?thesis by blast
qed

text \<open>
  Claim C3 says that presence is true whenever an enter or an exit animation is in flight.
  The layout effect returns no cleanup, so the frame callbacks of an enter outlive a change
  of the intent (the defect of claim C1). With a bound node, the setter is called with
  \<^verbatim>\<open>true\<close> at 0 ms and with \<^verbatim>\<open>false\<close> at 20 ms, between the paint opportunities at 16 ms and
  32 ms. The second frame callback of the superseded enter still finds the node at 32 ms,
  sets the 300 ms transition and applies the \<^verbatim>\<open>to\<close> style, over the collapsed style of the
  exit, and starts the \<^verbatim>\<open>onEntered\<close> timer. The exit timer removes the element at 320 ms:
  presence is false while the transition started at 32 ms has 12 ms to run and its
  \<^verbatim>\<open>onEntered\<close> timer is pending, and \<^verbatim>\<open>onEntered\<close> is invoked at 332 ms for an absent element.
\<close>

theorem presence_lost_mid_enter:
  "(\<exists>s. run True scenario_options
          [SetIsVisible (Value True), Wait 16, Paint, Wait 4, SetIsVisible (Value False),
           Wait 12, Paint, Wait 288] hidden_example = Inr s \<and>
       now s = 320 \<and> \<not> shouldRender s \<and> \<not> elementRef s \<and>
       timers s = [\<lparr>handle = 1, set_at = 32, delay = 300, task = EnteredTimeout True\<rparr>] \<and>
       trace s =
         [(0, Invoke OnEnter),
          (0, SetTransition ''none''),
          (0, AssignStyle (JObj [(''opacity'', JStr ''0'')])),
          (20, Invoke OnExit),
          (20, SetTransition ''all 300ms ease-in-out''),
          (20, AssignStyle (JObj [(''opacity'', JStr ''0'')])),
          (32, SetTransition ''all 300ms ease-in-out''),
          (32, AssignStyle (JObj [(''opacity'', JStr ''1'')])),
          (320, Invoke OnExited)]) \<and>
   (\<exists>s. run True scenario_options
          [SetIsVisible (Value True), Wait 16, Paint, Wait 4, SetIsVisible (Value False),
           Wait 12, Paint, Wait 288, Wait 12] hidden_example = Inr s \<and>
       \<not> shouldRender s \<and>
       trace s =
         [(0, Invoke OnEnter),
          (0, SetTransition ''none''),
          (0, AssignStyle (JObj [(''opacity'', JStr ''0'')])),
          (20, Invoke OnExit),
          (20, SetTransition ''all 300ms ease-in-out''),
          (20, AssignStyle (JObj [(''opacity'', JStr ''0'')])),
          (32, SetTransition ''all 300ms ease-in-out''),
          (32, AssignStyle (JObj [(''opacity'', JStr ''1'')])),
          (320, Invoke OnExited),
          (332, Invoke OnEntered)])"
  by (simp add: model_defs resolver_defs scenario_options_def hidden_example_def)

section \<open>The enter protocol: claim C4\<close>

lemma commit_enter_bound:
  assumes "committed True opts s" "mounted s" "\<not> isVisible s"
    and "get_prop (config_of opts) ''from'' = Inr f"
  shows "commit True opts (s\<lparr>isVisible := True\<rparr>) =
     Inr (s\<lparr>isVisible := True, shouldRender := True, elementRef := True,
            effectDeps := Some (True, duration_of opts, effect_of opts, timingFunction_of opts),
            layoutDeps := Some (True, True), effectCleanup := None,
            timers := timers (runCleanup s),
            frames := frames s @ [OuterFrame (config_of opts) (duration_of opts) (timingFunction_of opts) (onEntered opts)],
            trace := trace s @ enter_trace opts (shouldRender s) (now s) f\<rparr>)"
proof (cases "shouldRender s")
  case True
  from assms(1) True have "elementRef s" by (simp add: committed_def)
  with commit_enter_exiting [OF assms(1-3) True] assms(4) True show ?thesis
    by (simp add: read_from_def enter_trace_def)
next
  case False
  from commit_enter_hidden [OF assms(1-3) False] assms(4) False show ?thesis
    by (simp add: read_from_def enter_trace_def)
qed

lemma only_exit_cleared:
  assumes "timers_ok opts s" "\<forall>t\<in>set (timers s). is_exit t"
  shows "timers (runCleanup s) = []"
proof -
  have "\<forall>t\<in>set (timers (runCleanup s)). False"
    using no_exit_after_cleanup [OF assms(1)] assms(2) timers_runCleanup_subset [of s] by blast
  then show ?thesis by (cases "timers (runCleanup s)") auto
qed

text \<open>
  What the code does when nothing of an earlier enter is left over. The intent turns true
  in a consistent state \<open>s\<close> of an instance with a bound node, hidden or in the middle of an
  exit, with no frame callback and no timer other than that exit's pending, and with a
  configuration whose \<^verbatim>\<open>from\<close> and \<^verbatim>\<open>to\<close> can be read. Then
  \<^item> at once the transition is set to \<^verbatim>\<open>none\<close> and the \<^verbatim>\<open>from\<close> style is applied, and until
    a paint opportunity comes nothing else happens, however long it takes (\<open>Wait a\<close>);
  \<^item> the first paint opportunity only registers the second frame callback;
  \<^item> the second paint opportunity, at time \<open>now s + a + b\<close>, sets the transition to the
    configured duration and timing function, applies the \<^verbatim>\<open>to\<close> style and starts a timer of
    the configured duration; as long as less than the duration has elapsed nothing more
    happens;
  \<^item> when the duration has elapsed, at \<open>now s + a + b + duration\<close>, \<^verbatim>\<open>onEntered\<close> is invoked if
    it was supplied.
\<close>

lemma enter_from_quiet_state:
  assumes "consistent True opts s" "mounted s" "\<not> isVisible s"
    and "frames s = []" "\<forall>t\<in>set (timers s). is_exit t"
    and "get_prop (config_of opts) ''from'' = Inr f"
    and "get_prop (config_of opts) ''to'' = Inr t"
  shows
   "(\<exists>s1. run True opts [SetIsVisible (Value True), Wait a] s = Inr s1 \<and>
       trace s1 = trace s @ enter_trace opts (shouldRender s) (now s) f \<and>
       frames s1 = [OuterFrame (config_of opts) (duration_of opts) (timingFunction_of opts) (onEntered opts)] \<and>
       timers s1 = []) \<and>
    (\<exists>s2. run True opts [SetIsVisible (Value True), Wait a, Paint, Wait b] s = Inr s2 \<and>
       trace s2 = trace s @ enter_trace opts (shouldRender s) (now s) f \<and>
       frames s2 = [InnerFrame (config_of opts) (duration_of opts) (timingFunction_of opts) (onEntered opts)] \<and>
       timers s2 = []) \<and>
    (n < duration_of opts \<longrightarrow>
     (\<exists>s3. run True opts [SetIsVisible (Value True), Wait a, Paint, Wait b, Paint, Wait n] s = Inr s3 \<and>
       trace s3 = trace s @ enter_trace opts (shouldRender s) (now s) f @
         [(now s + a + b, SetTransition (transition_css (duration_of opts) (timingFunction_of opts))),
          (now s + a + b, AssignStyle t)] \<and>
       frames s3 = [] \<and>
       timers s3 = [\<lparr>handle = nextHandle s, set_at = now s + a + b, delay = duration_of opts,
                     task = EnteredTimeout (onEntered opts)\<rparr>])) \<and>
    (\<exists>s4. run True opts [SetIsVisible (Value True), Wait a, Paint, Wait b, Paint,
                         Wait (duration_of opts)] s = Inr s4 \<and>
       trace s4 = trace s @ enter_trace opts (shouldRender s) (now s) f @
         [(now s + a + b, SetTransition (transition_css (duration_of opts) (timingFunction_of opts))),
          (now s + a + b, AssignStyle t)] @
         (if onEntered opts then [(now s + a + b + duration_of opts, Invoke OnEntered)] else []) \<and>
       frames s4 = [] \<and> timers s4 = [])"
proof -
  from assms(1,2) have c: "committed True opts s" and m: "isMountedRef s" and tk: "timers_ok opts s"
    by (simp_all add: consistent_def)
  note rc = only_exit_cleared [OF tk assms(5)]
  note k = commit_enter_bound [OF c assms(2,3,6)]
  show ?thesis
    using assms(2,4,7) m rc
    by (simp add: k fire_def clearTimeout_def requestAnimationFrame_def setTimeout_def
          applyStyle_def emit_def due_def)
qed

text \<open>
  Claim C4 says that every enter with a bound node applies the \<^verbatim>\<open>from\<close> style, waits for two
  paint opportunities, applies the \<^verbatim>\<open>to\<close> style and invokes \<^verbatim>\<open>onEntered\<close> one duration
  later. The layout effect returns no cleanup, so the frame callbacks of a superseded enter
  are still registered when the next enter begins (the defect of claim C1). The setter is
  called with \<^verbatim>\<open>true\<close> at 0 ms, with \<^verbatim>\<open>false\<close> at 20 ms and with \<^verbatim>\<open>true\<close> again at 25 ms, with
  paint opportunities at 16 ms, 32 ms and 48 ms. The enter of 25 ms applies the \<^verbatim>\<open>from\<close> style
  at 25 ms; at 32 ms, its first paint opportunity, the second frame callback of the first
  enter applies the \<^verbatim>\<open>to\<close> style, and at 48 ms its own second frame callback applies it
  again; \<^verbatim>\<open>onEntered\<close> is invoked twice, at 332 ms and at 348 ms.
\<close>

theorem reenter_stale_frame_callback:
  "\<exists>s. run True scenario_options
         [SetIsVisible (Value True), Wait 16, Paint, Wait 4, SetIsVisible (Value False),
          Wait 5, SetIsVisible (Value True), Wait 7, Paint, Wait 16, Paint, Wait 300]
         hidden_example = Inr s \<and>
       trace s =
         [(0, Invoke OnEnter),
          (0, SetTransition ''none''),
          (0, AssignStyle (JObj [(''opacity'', JStr ''0'')])),
          (20, Invoke OnExit),
          (20, SetTransition ''all 300ms ease-in-out''),
          (20, AssignStyle (JObj [(''opacity'', JStr ''0'')])),
          (25, SetTransition ''none''),
          (25, AssignStyle (JObj [(''opacity'', JStr ''0'')])),
          (25, Invoke OnEnter),
          (32, SetTransition ''all 300ms ease-in-out''),
          (32, AssignStyle (JObj [(''opacity'', JStr ''1'')])),
          (48, SetTransition ''all 300ms ease-in-out''),
          (48, AssignStyle (JObj [(''opacity'', JStr ''1'')])),
          (332, Invoke OnEntered),
          (348, Invoke OnEntered)]"
  by (simp add: model_defs resolver_defs scenario_options_def hidden_example_def Let_def)

section \<open>The exit transition: claim C5\<close>

text \<open>
  Claim C5. The intent turns false in a consistent state \<open>s\<close> of a mounted instance whose
  intent is true; the element is then present. If a node is bound, \<open>f\<close> is the \<^verbatim>\<open>from\<close> style of
  the configuration. Then
  \<^item> in the same step \<^verbatim>\<open>onExit\<close> is invoked and, if a node is bound, its transition is set
    and the \<^verbatim>\<open>from\<close> style is applied to it; no frame callback is registered; the exit timer
    is started with the configured duration; the element stays present;
  \<^item> whenever that timer falls due in a later consistent state in which it is still
    pending and \<^verbatim>\<open>isMountedRef.current\<close> is true, presence becomes false, the ref is cleared
    and \<^verbatim>\<open>onExited\<close> is invoked;
  \<^item> in particular, when no other timer is pending and the duration elapses undisturbed,
    \<^verbatim>\<open>onExited\<close> is invoked exactly \<open>duration\<close> milliseconds after \<^verbatim>\<open>onExit\<close>.
\<close>

theorem exit_transition:
  assumes "consistent att opts s" "mounted s" "isVisible s"
    and "read_from att opts = Inr f"
  shows
   "shouldRender s \<and>
    (\<exists>s1. step att opts (SetIsVisible (Value False)) s = Inr s1 \<and>
       trace s1 = trace s @ exit_trace opts att (now s) f \<and>
       frames s1 = frames s \<and>
       timers s1 = timers s @ [exit_timer opts s] \<and>
       shouldRender s1) \<and>
    (\<forall>x. consistent att opts x \<and> isMountedRef x \<and> exit_timer opts s \<in> set (timers x) \<longrightarrow>
       (\<exists>x'. fire att opts (handle (exit_timer opts s)) x = Inr x' \<and>
          \<not> shouldRender x' \<and> \<not> elementRef x' \<and>
          trace x' = trace x @
            (if onExited opts then [(max (now x) (now s + duration_of opts), Invoke OnExited)] else []))) \<and>
    (timers s = [] \<longrightarrow>
       (\<exists>s2. run att opts [SetIsVisible (Value False), Wait (duration_of opts)] s = Inr s2 \<and>
          trace s2 = trace s @ exit_trace opts att (now s) f @
            (if onExited opts then [(now s + duration_of opts, Invoke OnExited)] else []) \<and>
          \<not> shouldRender s2 \<and> \<not> elementRef s2 \<and> timers s2 = [] \<and> frames s2 = frames s))"
proof -
  from assms(1,2,3) have c: "committed att opts s" and m: "isMountedRef s"
    and sr: "shouldRender s" and ec: "effectCleanup s = None"
    by (simp_all add: consistent_def)
  from ec have rc: "timers (runCleanup s) = timers s" by (simp add: runCleanup_def)
  note k = commit_exit [OF c assms(2,3) sr, unfolded assms(4) rc, simplified]
  have A: "\<exists>s1. step att opts (SetIsVisible (Value False)) s = Inr s1 \<and>
       trace s1 = trace s @ exit_trace opts att (now s) f \<and>
       frames s1 = frames s \<and>
       timers s1 = timers s @ [exit_timer opts s] \<and>
       shouldRender s1"
    using assms(2) sr by (simp add: k exit_trace_def exit_timer_def)
  have B: "\<exists>x'. fire att opts (handle (exit_timer opts s)) x = Inr x' \<and>
          \<not> shouldRender x' \<and> \<not> elementRef x' \<and>
          trace x' = trace x @
            (if onExited opts then [(max (now x) (now s + duration_of opts), Invoke OnExited)] else [])"
    if "consistent att opts x" "exit_timer opts s \<in> set (timers x)" for x
  proof -
    have "is_exit (exit_timer opts s)" by (simp add: is_exit_def exit_timer_def)
    from fire_pending_exit [OF that this] show ?thesis
      by (simp add: exit_timer_def due_def)
  qed
  have C: "\<exists>s2. run att opts [SetIsVisible (Value False), Wait (duration_of opts)] s = Inr s2 \<and>
          trace s2 = trace s @ exit_trace opts att (now s) f @
            (if onExited opts then [(now s + duration_of opts, Invoke OnExited)] else []) \<and>
          \<not> shouldRender s2 \<and> \<not> elementRef s2 \<and> timers s2 = [] \<and> frames s2 = frames s"
    if idle: "timers s = []"
  proof -
    from A obtain s1 where s1: "step att opts (SetIsVisible (Value False)) s = Inr s1"
      "trace s1 = trace s @ exit_trace opts att (now s) f" "frames s1 = frames s"
      "timers s1 = [exit_timer opts s]"
      using idle by auto
    from s1(1) assms(2) have n1: "now s1 = now s" by (auto simp add: k)
    from consistent_step [OF assms(1) s1(1)] have c1: "consistent att opts s1" .
    have ex: "is_exit (exit_timer opts s)" by (simp add: is_exit_def exit_timer_def)
    have "exit_timer opts s \<in> set (timers s1)" using s1(4) by simp
    note fp = fire_pending_exit [OF c1 this ex]
    have fp': "fire att opts (nextHandle s) s1 =
       Inr (s1\<lparr>shouldRender := False, elementRef := False,
            layoutDeps := Some (False, False), timers := [],
            now := now s + duration_of opts,
            trace := trace s1 @ (if onExited opts then [(now s + duration_of opts, Invoke OnExited)] else [])\<rparr>)"
      using fp s1(4) n1 by (simp add: exit_timer_def due_def)
    have w: "step att opts (Wait (duration_of opts)) s1 =
       Inr (s1\<lparr>shouldRender := False, elementRef := False,
            layoutDeps := Some (False, False), timers := [],
            now := now s + duration_of opts,
            trace := trace s1 @ (if onExited opts then [(now s + duration_of opts, Invoke OnExited)] else [])\<rparr>)"
      using s1(4) n1 by (simp add: fp' exit_timer_def due_def)
    have "run att opts [SetIsVisible (Value False), Wait (duration_of opts)] s =
       Inr (s1\<lparr>shouldRender := False, elementRef := False,
            layoutDeps := Some (False, False), timers := [],
            now := now s + duration_of opts,
            trace := trace s1 @ (if onExited opts then [(now s + duration_of opts, Invoke OnExited)] else [])\<rparr>)"
      by (simp only: run.simps s1(1) w and_then.simps)
    then show ?thesis using s1(2,3) by simp
  qed
  from sr A B C show ?thesis by blast
qed

theorem exit_transition_witness:
  "mounted entered_example \<and> isVisible entered_example \<and>
   read_from True scenario_options = Inr (JObj [(''opacity'', JStr ''0'')]) \<and>
   timers entered_example = [] \<and>
   (\<exists>s2. run True scenario_options [SetIsVisible (Value False), Wait 300] entered_example
            = Inr s2 \<and>
      trace s2 = trace entered_example @
        [(300, Invoke OnExit),
         (300, SetTransition ''all 300ms ease-in-out''),
         (300, AssignStyle (JObj [(''opacity'', JStr ''0'')])),
         (600, Invoke OnExited)] \<and>
      \<not> shouldRender s2 \<and> \<not> elementRef s2)"
proof -
  have 1: "consistent True scenario_options entered_example"
    by (rule consistent_run [OF consistent_mount [OF hidden_example_reached]
          entered_example_reached])
  have 2: "mounted entered_example" and 3: "isVisible entered_example"
    and 5: "timers entered_example = []"
    by (simp_all add: entered_example_def)
  have 4: "read_from True scenario_options = Inr (JObj [(''opacity'', JStr ''0'')])"
    by (simp add: read_from_def config_of_def effect_of_def scenario_options_def resolver_defs)
  have eqs: "duration_of scenario_options = 300" "now entered_example = 300"
    "onExited scenario_options"
    "exit_trace scenario_options True 300 (JObj [(''opacity'', JStr ''0'')]) =
       [(300, Invoke OnExit),
        (300, SetTransition ''all 300ms ease-in-out''),
        (300, AssignStyle (JObj [(''opacity'', JStr ''0'')]))]"
    by (simp_all add: exit_trace_def duration_of_def timingFunction_of_def transition_css_def
          show_nat.simps digit_char_def scenario_options_def entered_example_def)
  from exit_transition [OF 1 2 3 4] 5
  obtain s2 where r2: "run True scenario_options
       [SetIsVisible (Value False), Wait (duration_of scenario_options)] entered_example = Inr s2"
    and t2: "trace s2 = trace entered_example @
        exit_trace scenario_options True (now entered_example) (JObj [(''opacity'', JStr ''0'')]) @
        (if onExited scenario_options
         then [(now entered_example + duration_of scenario_options, Invoke OnExited)] else [])"
    and p2: "\<not> shouldRender s2" "\<not> elementRef s2"
    by blast
  from r2 have r3: "run True scenario_options [SetIsVisible (Value False), Wait 300]
      entered_example = Inr s2"
    by (simp only: eqs)
  from t2 eqs have t3: "trace s2 = trace entered_example @
        [(300, Invoke OnExit),
         (300, SetTransition ''all 300ms ease-in-out''),
         (300, AssignStyle (JObj [(''opacity'', JStr ''0'')])),
         (600, Invoke OnExited)]"
    by simp
  from r3 t3 p2
  have "\<exists>s2. run True scenario_options [SetIsVisible (Value False), Wait 300] entered_example
            = Inr s2 \<and>
      trace s2 = trace entered_example @
        [(300, Invoke OnExit),
         (300, SetTransition ''all 300ms ease-in-out''),
         (300, AssignStyle (JObj [(''opacity'', JStr ''0'')])),
         (600, Invoke OnExited)] \<and>
      \<not> shouldRender s2 \<and> \<not> elementRef s2"
    by blast
  with 2 3 4 5 show ?thesis by blast
qed

section \<open>Without a bound node: claim C6\<close>

lemma consistent_unbound: "consistent False opts s \<Longrightarrow> \<not> elementRef s"
  by (cases "mounted s") (simp_all add: consistent_def committed_def)

lemma style_free_append [simp]: "style_free (xs @ ys) = (style_free xs \<and> style_free ys)"
  by (simp add: style_free_def)

lemma style_free_invoke [simp]: "style_free [(\<tau>, Invoke cb)]" "style_free []"
  by (simp_all add: style_free_def is_invoke_def)

lemma fire_unbound:
  assumes "unbound_ok opts s"
  shows "\<exists>s'. fire False opts h s = Inr s' \<and> unbound_ok opts s'"
proof (cases "find (\<lambda>t. handle t = h) (timers s)")
  case None
  with assms show ?thesis by (simp add: fire_def)
next
  case (Some t)
  from assms have c: "consistent False opts s" and sf: "style_free (trace s)"
    by (simp_all add: unbound_ok_def)
  from find_handle_SomeD [OF Some] have t: "t \<in> set (timers s)" "handle t = h" by simp_all
  obtain s' where s': "fire False opts h s = Inr s'" "style_free (trace s')"
  proof (cases "task t")
    case (EnteredTimeout e)
    from fire_entered [OF Some EnteredTimeout, of False opts] sf that show ?thesis by simp
  next
    case (ExitTimeout e)
    then have "is_exit t" by (simp add: is_exit_def)
    from fire_pending_exit [OF c t(1) this] t(2) sf that show ?thesis by simp
  qed
  from consistent_fire [OF c s'(1)] s' show ?thesis by (auto simp add: unbound_ok_def)
qed

lemma runFrame_unbound:
  assumes "unbound_ok opts s"
  shows "\<exists>s'. runFrame k s = Inr s' \<and> unbound_ok opts s'"
proof -
  from assms have c: "consistent False opts s" and sf: "style_free (trace s)"
    by (simp_all add: unbound_ok_def)
  from consistent_unbound [OF c] sf obtain s' where s': "runFrame k s = Inr s'" "style_free (trace s')"
    by (cases k) (simp_all add: requestAnimationFrame_def)
  from consistent_runFrame [OF c s'(1)] s' show ?thesis by (auto simp add: unbound_ok_def)
qed

lemma each_total:
  assumes "\<And>x s. P s \<Longrightarrow> \<exists>s'. f x s = Inr s' \<and> P s'" and "P s"
  shows "\<exists>s'. each f xs s = Inr s' \<and> P s'"
  using each_keeps [where P = P and f = f and g = "\<lambda>_. ()" and s = s and xs = xs] assms
  by simp

lemma read_from_unbound: "read_from False opts = Inr JUndefined"
  by (simp add: read_from_def)

lemma setter_unbound:
  assumes "unbound_ok opts s"
  shows "\<exists>s'. step False opts (SetIsVisible a) s = Inr s' \<and> style_free (trace s')"
proof (cases "mounted s")
  case False
  with assms show ?thesis by (simp add: unbound_ok_def)
next
  case True
  from assms have co: "consistent False opts s" and sf: "style_free (trace s)"
    by (simp_all add: unbound_ok_def)
  from co True have c: "committed False opts s" by (simp add: consistent_def)
  let ?v = "next_state a (isVisible s)"
  show ?thesis
  proof (cases "?v = isVisible s")
    case same: True
    from committed_noop [OF c] same True sf show ?thesis by simp
  next
    case False
    show ?thesis
    proof (cases "isVisible s")
      case v: True
      with False have nv: "?v = False" by simp
      from co v have sr: "shouldRender s" by (simp add: consistent_def)
      from commit_exit [OF c True v sr] True sf show ?thesis
        by (simp add: nv read_from_unbound)
    next
      case v: False
      with False have nv: "?v = True" by simp
      show ?thesis
      proof (cases "shouldRender s")
        case sr: True
        from commit_enter_exiting [OF c True v sr] True sf show ?thesis
          by (simp add: nv read_from_unbound)
      next
        case sr: False
        from commit_enter_hidden [OF c True v sr] True sf show ?thesis
          by (simp add: nv read_from_unbound)
      qed
    qed
  qed
qed

lemma step_unbound:
  assumes "unbound_ok opts s"
  shows "\<exists>s'. step False opts ev s = Inr s' \<and> unbound_ok opts s'"
proof -
  from assms have co: "consistent False opts s" and sf: "style_free (trace s)"
    by (simp_all add: unbound_ok_def)
  have "\<exists>s'. step False opts ev s = Inr s' \<and> style_free (trace s')"
  proof (cases ev)
    case (SetIsVisible a)
    with setter_unbound [OF assms] show ?thesis by simp
  next
    case Paint
    from assms have "unbound_ok opts (s\<lparr>frames := []\<rparr>)"
      by (simp add: unbound_ok_def consistent_frames_irrelevant)
    from each_total [where P = "unbound_ok opts" and f = runFrame, OF runFrame_unbound this] Paint
    show ?thesis by (auto simp add: unbound_ok_def)
  next
    case (Wait n)
    from each_total [where P = "unbound_ok opts" and f = "fire False opts", OF fire_unbound assms]
    obtain s1 where "each (fire False opts)
        (map handle (sort_key due (filter (\<lambda>t. due t \<le> now s + n) (timers s)))) s = Inr s1"
      "unbound_ok opts s1" by blast
    with Wait show ?thesis by (simp add: unbound_ok_def)
  next
    case Unmount
    with sf show ?thesis
      by (cases "mounted s") (simp_all add: unmount_def)
  qed
  then obtain s' where s': "step False opts ev s = Inr s'" "style_free (trace s')" by blast
  from consistent_step [OF co s'(1)] s' show ?thesis by (auto simp add: unbound_ok_def)
qed

lemma run_unbound:
  "unbound_ok opts s \<Longrightarrow> \<exists>s'. run False opts evs s = Inr s' \<and> unbound_ok opts s'"
proof (induction evs arbitrary: s)
  case Nil
  then show ?case by simp
next
  case (Cons ev evs)
  from step_unbound [OF Cons.prems] obtain s1 where
    1: "step False opts ev s = Inr s1" "unbound_ok opts s1" by blast
  from Cons.IH [OF 1(2)] 1(1) show ?case by simp
qed

lemma mount_unbound: "\<exists>s0. mount False opts iv = Inr s0 \<and> unbound_ok opts s0"
proof -
  obtain s0 where s0: "mount False opts iv = Inr s0" "style_free (trace s0)"
    using mount_hidden [of False opts] mount_visible [of False opts]
    by (cases iv) (simp_all add: read_from_unbound)
  from consistent_mount [OF s0(1)] s0 show ?thesis by (auto simp add: unbound_ok_def)
qed

text \<open>
  Claim C6. \<^verbatim>\<open>applyStyle\<close> on an empty slot returns the state as it is. An instance whose
  caller never attaches the ref mounts and runs through every sequence of events without an
  error, for every configuration (also one whose effect is \<^verbatim>\<open>null\<close>, which no code path then
  reads), and performs no style mutation at all. In every state it reaches while mounted,
  calling the setter with \<^verbatim>\<open>true\<close> makes the element present at once, and calling it with
  \<^verbatim>\<open>false\<close> makes the element absent once the configured duration has passed: plain show and
  hide, and never a stuck state.
\<close>

theorem unbound_node_degrades:
  "(\<not> elementRef x \<longrightarrow> applyStyle styles x = x) \<and>
   (\<exists>s0. mount False opts iv = Inr s0 \<and>
      (\<forall>evs. \<exists>s. run False opts evs s0 = Inr s \<and> style_free (trace s) \<and>
         (mounted s \<longrightarrow>
            (\<exists>s1. step False opts (SetIsVisible (Value True)) s = Inr s1 \<and> shouldRender s1) \<and>
            (\<forall>n\<ge>duration_of opts.
               \<exists>s2. run False opts [SetIsVisible (Value False), Wait n] s = Inr s2 \<and>
                  \<not> shouldRender s2))))"
proof -
  from mount_unbound [of opts iv] obtain s0 where s0: "mount False opts iv = Inr s0"
    "unbound_ok opts s0" by blast
  have main: "\<exists>s. run False opts evs s0 = Inr s \<and> style_free (trace s) \<and>
         (mounted s \<longrightarrow>
            (\<exists>s1. step False opts (SetIsVisible (Value True)) s = Inr s1 \<and> shouldRender s1) \<and>
            (\<forall>n\<ge>duration_of opts.
               \<exists>s2. run False opts [SetIsVisible (Value False), Wait n] s = Inr s2 \<and>
                  \<not> shouldRender s2))" for evs
  proof -
    from run_unbound [OF s0(2), of evs] obtain s where s: "run False opts evs s0 = Inr s"
      "unbound_ok opts s" by blast
    then have co: "consistent False opts s" by (simp add: unbound_ok_def)
    have show_ok: "\<exists>s1. step False opts (SetIsVisible (Value True)) s = Inr s1 \<and> shouldRender s1"
      if m: "mounted s"
    proof -
      from step_unbound [OF s(2), of "SetIsVisible (Value True)"] obtain s1 where
        1: "step False opts (SetIsVisible (Value True)) s = Inr s1" "unbound_ok opts s1" by blast
      from setter_result [OF co m 1(1)] have "isVisible s1" by simp
      with 1(2) have "shouldRender s1" by (simp add: unbound_ok_def consistent_def)
      with 1(1) show ?thesis by blast
    qed
    have hide_ok: "\<exists>s2. run False opts [SetIsVisible (Value False), Wait n] s = Inr s2 \<and>
                  \<not> shouldRender s2"
      if m: "mounted s" and n: "duration_of opts \<le> n" for n
    proof -
      from step_unbound [OF s(2), of "SetIsVisible (Value False)"] obtain s1 where
        1: "step False opts (SetIsVisible (Value False)) s = Inr s1" "unbound_ok opts s1" by blast
      from 1(2) have c1: "consistent False opts s1" by (simp add: unbound_ok_def)
      from setter_result [OF co m 1(1)] have m1: "mounted s1" and v1: "\<not> isVisible s1"
        by simp_all
      from step_unbound [OF 1(2), of "Wait n"] obtain s2 where
        2: "step False opts (Wait n) s1 = Inr s2" by blast
      from exit_completes [OF c1 m1 v1 n 2] have "\<not> shouldRender s2" by simp
      moreover have "run False opts [SetIsVisible (Value False), Wait n] s = Inr s2"
        by (simp only: run.simps 1(1) 2 and_then.simps)
      ultimately show ?thesis by blast
    qed
    from s(1,2) show_ok hide_ok show ?thesis by (auto simp add: unbound_ok_def)
  qed
  have "\<not> elementRef x \<longrightarrow> applyStyle styles x = x" by (simp add: applyStyle_def)
  with s0(1) main show ?thesis by blast
qed

theorem unbound_node_degrades_witness:
  "\<not> elementRef hidden_example \<and>
   applyStyle fade_preset hidden_example = hidden_example \<and>
   run False null_effect_options [SetIsVisible (Value True)] hidden_example
      = Inr unbound_shown_example \<and>
   mounted unbound_shown_example \<and> duration_of null_effect_options \<le> 200 \<and>
   (\<exists>s0. mount False null_effect_options False = Inr s0 \<and>
      (\<exists>s. run False null_effect_options [SetIsVisible (Value True)] s0 = Inr s \<and>
         style_free (trace s) \<and>
         (\<exists>s2. run False null_effect_options [SetIsVisible (Value False), Wait 200] s = Inr s2 \<and>
            \<not> shouldRender s2)))"
proof -
  have m0: "mount False null_effect_options False =
      Inr (hidden_example\<lparr>effectDeps := Some (False, 200, JNull, ''ease-in-out'')\<rparr>)"
    by (simp add: model_defs null_effect_options_def hidden_example_def)
  have r: "run False null_effect_options [SetIsVisible (Value True)]
      (hidden_example\<lparr>effectDeps := Some (False, 200, JNull, ''ease-in-out'')\<rparr>)
      = Inr unbound_shown_example"
    by (simp add: model_defs null_effect_options_def hidden_example_def
          unbound_shown_example_def)
  have r': "run False null_effect_options [SetIsVisible (Value True)] hidden_example
      = Inr unbound_shown_example"
    by (simp add: model_defs null_effect_options_def hidden_example_def
          unbound_shown_example_def)
  have m: "mounted unbound_shown_example" by (simp add: unbound_shown_example_def)
  have d: "duration_of null_effect_options \<le> 200"
    by (simp add: duration_of_def null_effect_options_def)
  have e: "\<not> elementRef hidden_example" by (simp add: hidden_example_def)
  from unbound_node_degrades [of hidden_example fade_preset null_effect_options False]
  obtain s0 where s0: "mount False null_effect_options False = Inr s0"
    and all: "\<And>evs. \<exists>s. run False null_effect_options evs s0 = Inr s \<and> style_free (trace s) \<and>
         (mounted s \<longrightarrow>
            (\<exists>s1. step False null_effect_options (SetIsVisible (Value True)) s = Inr s1 \<and>
               shouldRender s1) \<and>
            (\<forall>n\<ge>duration_of null_effect_options.
               \<exists>s2. run False null_effect_options [SetIsVisible (Value False), Wait n] s = Inr s2 \<and>
                  \<not> shouldRender s2))"
    and ap: "applyStyle fade_preset hidden_example = hidden_example"
    using e by blast
  from s0 m0 have s0_eq: "s0 = hidden_example\<lparr>effectDeps := Some (False, 200, JNull, ''ease-in-out'')\<rparr>"
    by simp
  from all [of "[SetIsVisible (Value True)]"] r m d
  have "\<exists>s. run False null_effect_options [SetIsVisible (Value True)] s0 = Inr s \<and>
         style_free (trace s) \<and>
         (\<exists>s2. run False null_effect_options [SetIsVisible (Value False), Wait 200] s = Inr s2 \<and>
            \<not> shouldRender s2)"
    unfolding s0_eq by auto
  with s0 e ap r' m d show ?thesis by blast
qed

end
